theory Spec2Isabelle
  imports Main "HOL-Library.Multiset"
begin

section \<open>Strings\<close>

text \<open>
  A JavaScript string is a sequence of UTF-16 code units. The model uses \<open>string\<close>
  (a list of \<open>char\<close>) and reads each \<open>char\<close> as one code unit below 256, that is
  as the Latin-1 character of that number; strings holding a code unit from 256 on are
  outside the model. All file names, tags and captions of the examples are ASCII.
\<close>

definition isWhiteSpace :: "char \<Rightarrow> bool" where
  \<comment> \<open>The characters \<open>String.prototype.trim\<close> removes, below 256: TAB, LF, VT, FF, CR,
      SPACE and NBSP.\<close>
  "isWhiteSpace c = (of_char c \<in> set [9, 10, 11, 12, 13, 32, 160 :: nat])"

definition trim :: "string \<Rightarrow> string" where
  "trim s = rev (dropWhile isWhiteSpace (rev (dropWhile isWhiteSpace s)))"

definition lowerChar :: "char \<Rightarrow> char" where
  \<comment> \<open>\<open>toLowerCase\<close> on one code unit below 256: A-Z, and the Latin-1 capitals
      0xC0-0xDE without the multiplication sign 0xD7, move up by 32.\<close>
  "lowerChar c =
     (let n = (of_char c :: nat)
      in if (65 \<le> n \<and> n \<le> 90) \<or> (192 \<le> n \<and> n \<le> 222 \<and> n \<noteq> 215)
         then char_of (n + 32) else c)"

definition toLowerCase :: "string \<Rightarrow> string" where
  "toLowerCase s = map lowerChar s"

definition startsWith :: "string \<Rightarrow> string \<Rightarrow> bool" where
  "startsWith s p = (take (length p) s = p)"

definition isHyphenUnderscore :: "char \<Rightarrow> bool" where
  "isHyphenUnderscore c = (c = CHR ''-'' \<or> c = CHR ''_'')"

text \<open>
  \<open>s.split(/[-_]+/)\<close>: the pieces of \<open>s\<close> between the maximal runs of hyphens and
  underscores. A run at the start or at the end leaves an empty piece there, and the
  empty string splits into one empty piece. The flag says that the character before was
  part of a run.
\<close>

fun splitAux :: "bool \<Rightarrow> string \<Rightarrow> string list" where
  "splitAux inRun [] = [[]]"
| "splitAux inRun (c # cs) =
     (if isHyphenUnderscore c
      then (if inRun then splitAux True cs else [] # splitAux True cs)
      else (case splitAux False cs of [] \<Rightarrow> [[c]] | p # ps \<Rightarrow> (c # p) # ps))"

definition splitRuns :: "string \<Rightarrow> string list" where
  "splitRuns s = splitAux False s"

fun joinWith :: "string \<Rightarrow> string list \<Rightarrow> string" where
  "joinWith sep [] = []"
| "joinWith sep [p] = p"
| "joinWith sep (p # q # ps) = p @ sep @ joinWith sep (q # ps)"

definition spacedName :: "string \<Rightarrow> string" where
  \<comment> \<open>\<open>s.split(/[-_]+/).join(" ").trim()\<close>\<close>
  "spacedName s = trim (joinWith '' '' (splitRuns s))"

section \<open>Paths (Node's \<open>path\<close> module, POSIX)\<close>

definition isSlash :: "char \<Rightarrow> bool" where
  "isSlash c = (c = CHR ''/'')"

definition basename :: "string \<Rightarrow> string" where
  \<comment> \<open>The last segment of a path, trailing slashes ignored.\<close>
  "basename p = rev (takeWhile (\<lambda>c. \<not> isSlash c) (dropWhile isSlash (rev p)))"

definition extOfBase :: "string \<Rightarrow> string" where
  \<comment> \<open>The extension of a last segment: from its last dot on; empty when there is no dot,
      when the last dot is the first character, and for the segment \<open>..\<close>.\<close>
  "extOfBase b =
     (if CHR ''.'' \<notin> set b then []
      else let e = rev (takeWhile (\<lambda>c. c \<noteq> CHR ''.'') (rev b));
               stem = take (length b - length e - 1) b
           in if stem = [] \<or> b = ''..'' then [] else CHR ''.'' # e)"

definition extname :: "string \<Rightarrow> string" where
  "extname p = extOfBase (basename p)"

definition parseName :: "string \<Rightarrow> string" where
  \<comment> \<open>\<open>path.parse(p).name\<close>: the last segment without its extension.\<close>
  "parseName p = (let b = basename p in take (length b - length (extOfBase b)) b)"

fun splitSlash :: "string \<Rightarrow> string list" where
  \<comment> \<open>\<open>s.split("/")\<close>\<close>
  "splitSlash [] = [[]]"
| "splitSlash (c # cs) =
     (if isSlash c then [] # splitSlash cs
      else (case splitSlash cs of [] \<Rightarrow> [[c]] | p # ps \<Rightarrow> (c # p) # ps))"

text \<open>
  \<open>normalizeString\<close> of Node: the segments of a path with empty segments and \<open>.\<close>
  dropped and \<open>..\<close> resolved against the segment before it. \<open>acc\<close> holds the
  segments kept so far, last one first. A \<open>..\<close> that has nothing to remove is kept
  when the path is relative (\<open>allowAboveRoot\<close>) and dropped when it is absolute.
\<close>

fun normalizeSegs :: "bool \<Rightarrow> string list \<Rightarrow> string list \<Rightarrow> string list" where
  "normalizeSegs allowAboveRoot acc [] = rev acc"
| "normalizeSegs allowAboveRoot acc (s # ss) =
     (if s = [] \<or> s = ''.'' then normalizeSegs allowAboveRoot acc ss
      else if s = ''..'' then
        (case acc of
           [] \<Rightarrow> normalizeSegs allowAboveRoot (if allowAboveRoot then [''..''] else []) ss
         | a # as \<Rightarrow>
             if a = ''..'' then
               normalizeSegs allowAboveRoot (if allowAboveRoot then ''..'' # acc else acc) ss
             else normalizeSegs allowAboveRoot as ss)
      else normalizeSegs allowAboveRoot (s # acc) ss)"

definition normalize :: "string \<Rightarrow> string" where
  "normalize p =
     (if p = [] then ''.''
      else let isAbsolute = isSlash (hd p);
               trailingSeparator = isSlash (last p);
               q = joinWith ''/'' (normalizeSegs (\<not> isAbsolute) [] (splitSlash p))
           in if q = [] then
                (if isAbsolute then ''/'' else if trailingSeparator then ''./'' else ''.'')
              else (if isAbsolute then ''/'' else []) @ q
                   @ (if trailingSeparator then ''/'' else []))"

definition pathJoin :: "string list \<Rightarrow> string" where
  \<comment> \<open>\<open>path.join(...args)\<close>: the non-empty arguments joined by a slash, normalized.\<close>
  "pathJoin args =
     (let joined = joinWith ''/'' (filter (\<lambda>a. a \<noteq> []) args)
      in if joined = [] then ''.'' else normalize joined)"

section \<open>EXIF tags and captions\<close>

text \<open>
  The tags object of an image, as the result of \<open>parse()\<close> of \<open>exif-parser\<close> has
  it. The five tags the server reads are fields; a tag that is not set (\<open>undefined\<close>)
  is \<open>None\<close>. The description tags and the camera model are strings, the capture
  time is a number of seconds.
\<close>

record exifTags =
  ImageDescription :: "string option"
  Title :: "string option"
  ObjectName :: "string option"
  DateTimeOriginal :: "int option"
  Model :: "string option"

definition truthyStr :: "string option \<Rightarrow> bool" where
  \<comment> \<open>\<open>if (v)\<close> on a string or \<open>undefined\<close>\<close>
  "truthyStr v = (case v of None \<Rightarrow> False | Some s \<Rightarrow> s \<noteq> [])"

definition truthyNum :: "int option \<Rightarrow> bool" where
  \<comment> \<open>\<open>if (v)\<close> on a number or \<open>undefined\<close>\<close>
  "truthyNum v = (case v of None \<Rightarrow> False | Some n \<Rightarrow> n \<noteq> 0)"

record MediaEntry =
  relFile :: string
  caption :: string
  ext :: string

definition supportedExtensions :: "string list" where
  "supportedExtensions =
     [''.jpg'', ''.jpeg'', ''.png'', ''.gif'', ''.mp4'', ''.mov'', ''.webm'', ''.webp'']"

definition jpegExtensions :: "string list" where
  "jpegExtensions = [''.jpg'', ''.jpeg'']"

definition videoExtensions :: "string list" where
  "videoExtensions = [''.mp4'', ''.mov'', ''.webm'']"

definition captionTags :: "(exifTags \<Rightarrow> string option) list" where
  "captionTags = [ImageDescription, Title, ObjectName]"

fun captionLoop :: "exifTags \<Rightarrow> (exifTags \<Rightarrow> string option) list \<Rightarrow> string" where
  \<comment> \<open>\<open>for (const tag of captionTags) if (exifData[tag]) { caption = exifData[tag].trim(); break; }\<close>\<close>
  "captionLoop exifData [] = []"
| "captionLoop exifData (tag # tags) =
     (if truthyStr (tag exifData) then trim (the (tag exifData))
      else captionLoop exifData tags)"

section \<open>The file system\<close>

text \<open>
  A directory entry as \<open>readdir\<close> lists it: a regular file with the EXIF tags it
  holds (\<open>None\<close> when it holds none that can be parsed), a directory with its entries
  in enumeration order, a directory whose listing cannot be read (\<open>readdir\<close> rejects),
  or an entry that is neither a regular file nor a directory. The file system does not
  change during a request.
\<close>

datatype node =
    FileN string "exifTags option"
  | DirN string "node list"
  | BadDirN string
  | OtherN string

fun entryName :: "node \<Rightarrow> string" where
  "entryName (FileN n e) = n"
| "entryName (DirN n es) = n"
| "entryName (BadDirN n) = n"
| "entryName (OtherN n) = n"

fun isDirectory :: "node \<Rightarrow> bool" where
  "isDirectory (DirN n es) = True"
| "isDirectory (BadDirN n) = True"
| "isDirectory other = False"

fun isFile :: "node \<Rightarrow> bool" where
  "isFile (FileN n e) = True"
| "isFile other = False"

datatype errno = ENOENT | ENOTDIR | EACCES

fun readdir :: "node \<Rightarrow> errno + node list" where
  \<comment> \<open>\<open>fs.promises.readdir\<close> of the path where the node lies; \<open>Inl\<close> when it rejects.\<close>
  "readdir (DirN n es) = Inr es"
| "readdir (BadDirN n) = Inl EACCES"
| "readdir other = Inl ENOTDIR"

fun childNamed :: "node list \<Rightarrow> string \<Rightarrow> node option" where
  "childNamed [] n = None"
| "childNamed (e # es) n = (if entryName e = n then Some e else childNamed es n)"

definition entryAt :: "node \<Rightarrow> string \<Rightarrow> node option" where
  \<comment> \<open>What lies at \<open>path.join(dir, name)\<close>, for the node at \<open>dir\<close>.\<close>
  "entryAt dir n = (case readdir dir of Inl e \<Rightarrow> None | Inr es \<Rightarrow> childNamed es n)"

text \<open>
  \<open>getExifData(filePath)\<close> reads the file, makes a parser with \<open>exif.create(buffer)\<close>
  and returns \<open>parser.tags\<close>. The parser of \<open>exif-parser\<close> holds the buffer and its
  settings; the tags of the image are on the result of \<open>parser.parse()\<close>, which the
  server never calls. So the property \<open>tags\<close> is \<open>undefined\<close>, whatever the image
  holds. Reading anything but a regular file throws, and the function returns \<open>null\<close>.
  \<open>None\<close> stands for \<open>undefined\<close> and for \<open>null\<close>: the callers only test the
  result with \<open>if (exifData)\<close>.
\<close>

definition parserTags :: "exifTags option \<Rightarrow> exifTags option" where
  \<comment> \<open>\<open>exif.create(buffer).tags\<close>, for a buffer that holds the given tags.\<close>
  "parserTags held = None"

fun getExifData :: "node option \<Rightarrow> exifTags option" where
  "getExifData (Some (FileN n held)) = parserTags held"
| "getExifData other = None"

text \<open>
  \<open>processMediaFileForModal(fullPath, relativePath)\<close>. \<open>atFullPath\<close> is what lies at
  \<open>fullPath\<close>, which \<open>getExifData\<close> reads, and \<open>formatDate\<close> is
  \<open>new Date(ms).toLocaleDateString("en-US", {year: "numeric", month: "long", day:
  "numeric"})\<close> as a function of the milliseconds, which depends on the time zone of the
  server.
\<close>

definition processMediaFileForModal ::
  "(int \<Rightarrow> string) \<Rightarrow> node option \<Rightarrow> string \<Rightarrow> string \<Rightarrow> MediaEntry" where
  "processMediaFileForModal formatDate atFullPath fullPath relativePath =
     (let ext = toLowerCase (extname fullPath);
          caption1 =
            (if ext \<in> set jpegExtensions then
               (case getExifData atFullPath of
                  None \<Rightarrow> []
                | Some exifData \<Rightarrow>
                    (let c = captionLoop exifData captionTags
                     in if c = [] then
                          (if truthyNum (DateTimeOriginal exifData)
                           then formatDate (the (DateTimeOriginal exifData) * 1000)
                           else if truthyStr (Model exifData) then the (Model exifData)
                           else [])
                        else c))
             else []);
          caption2 =
            (if caption1 = [] then
               (if ext \<in> set videoExtensions then ''Video''
                else spacedName (parseName relativePath))
             else caption1)
      in \<lparr>relFile = relativePath, caption = caption2, ext = ext\<rparr>)"

fun walk :: "node \<Rightarrow> string list \<Rightarrow> errno + node" where
  \<comment> \<open>Down from a node along names. A directory that cannot be listed cannot be
      entered either, and a name below anything but a directory is \<open>ENOTDIR\<close>.\<close>
  "walk d [] = Inr d"
| "walk (DirN n es) (s # ss) =
     (case childNamed es s of None \<Rightarrow> Inl ENOENT | Some e \<Rightarrow> walk e ss)"
| "walk (BadDirN n) (s # ss) = Inl EACCES"
| "walk other (s # ss) = Inl ENOTDIR"

definition statPath :: "node \<Rightarrow> string \<Rightarrow> errno + node" where
  \<comment> \<open>\<open>fs.promises.stat(p)\<close> for an absolute path \<open>p\<close>; \<open>fsys\<close> is the node of \<open>/\<close>.\<close>
  "statPath fsys p = walk fsys (normalizeSegs False [] (splitSlash p))"

section \<open>Directory scanner and cover selector\<close>

definition isMediaName :: "string \<Rightarrow> bool" where
  "isMediaName f = (toLowerCase (extname f) \<in> set supportedExtensions)"

definition getMediaFilesFromDirectory :: "node option \<Rightarrow> string list" where
  \<comment> \<open>The argument is what lies at \<open>directoryPath\<close>. \<open>readdir\<close> gives names only here,
      so an entry is kept by its name, whatever its kind.\<close>
  "getMediaFilesFromDirectory dir =
     (case (case dir of None \<Rightarrow> Inl ENOENT | Some d \<Rightarrow> readdir d) of
        Inl e \<Rightarrow> []
      | Inr files \<Rightarrow> filter isMediaName (map entryName files))"

record cover =
  url :: string
  coverCaption :: string
  coverExt :: string

definition findFolderCover :: "node \<Rightarrow> string \<Rightarrow> cover option" where
  \<comment> \<open>\<open>findFolderCover(folderFullPath, folderRelativePath)\<close>; \<open>folder\<close> is the node at
      \<open>folderFullPath\<close>.\<close>
  "findFolderCover folder folderRelativePath =
     (let mediaFiles = getMediaFilesFromDirectory (Some folder);
          potentialCovers =
            filter (\<lambda>f. startsWith (toLowerCase (parseName f)) ''cover'') mediaFiles;
          coverFileName =
            (case potentialCovers of
               c # cs \<Rightarrow> Some c
             | [] \<Rightarrow> (case mediaFiles of m # ms \<Rightarrow> Some m | [] \<Rightarrow> None))
      in case coverFileName of
           None \<Rightarrow> None
         | Some coverFile \<Rightarrow>
             if coverFile = [] then None
             else
               (let coverFileRelativePath = pathJoin [folderRelativePath, coverFile];
                    caption0 = spacedName (last (splitSlash folderRelativePath));
                    caption1 =
                      (if toLowerCase (extname coverFile) \<in> set jpegExtensions then
                         (case getExifData (entryAt folder coverFile) of
                            None \<Rightarrow> caption0
                          | Some exifData \<Rightarrow>
                              if truthyStr (ImageDescription exifData)
                              then trim (the (ImageDescription exifData))
                              else caption0)
                       else caption0)
                in Some \<lparr>url = ''/'' @ coverFileRelativePath,
                         coverCaption = caption1,
                         coverExt = toLowerCase (extname coverFile)\<rparr>))"

section \<open>Gallery items and their order\<close>

datatype galleryItem =
    FolderItem string string string string
  | FileItem MediaEntry string

text \<open>
  \<open>FolderItem name caption thumbnailUrl link\<close> is the object of type \<open>"folder"\<close>,
  \<open>FileItem entry thumbnailUrl\<close> the object of type \<open>"file"\<close> with the fields of
  \<open>entry\<close> spread into it.
\<close>

fun isFolderItem :: "galleryItem \<Rightarrow> bool" where
  "isFolderItem (FolderItem n c t l) = True"
| "isFolderItem (FileItem m t) = False"

fun itemCaption :: "galleryItem \<Rightarrow> string" where
  "itemCaption (FolderItem n c t l) = c"
| "itemCaption (FileItem m t) = caption m"

fun sortKey :: "galleryItem \<Rightarrow> string" where
  \<comment> \<open>\<open>a.name || a.caption\<close>: a file item has no name.\<close>
  "sortKey (FolderItem n c t l) = (if n \<noteq> [] then n else c)"
| "sortKey (FileItem m t) = caption m"

definition galleryItemOf :: "(int \<Rightarrow> string) \<Rightarrow> string \<Rightarrow> node \<Rightarrow> galleryItem option" where
  \<comment> \<open>The callback of \<open>entries.map\<close> in the main route; \<open>None\<close> is \<open>null\<close>.\<close>
  "galleryItemOf formatDate rootPath entry =
     (let entryRelativePath = entryName entry;
          entryFullPath = pathJoin [rootPath, entryName entry]
      in if isDirectory entry then
           (let coverData = findFolderCover entry entryRelativePath
            in Some (FolderItem (entryName entry)
                 (case coverData of
                    Some c \<Rightarrow> coverCaption c
                  | None \<Rightarrow> spacedName (last (splitSlash entryRelativePath)))
                 (case coverData of Some c \<Rightarrow> url c | None \<Rightarrow> ''/folder_icon.png'')
                 (''/'' @ entryName entry)))
         else if isFile entry then
           (if toLowerCase (extname (entryName entry)) \<in> set supportedExtensions then
              Some (FileItem
                (processMediaFileForModal formatDate (Some entry)
                   entryFullPath entryRelativePath)
                (''/'' @ entryRelativePath))
            else None)
         else None)"

definition compareItems ::
  "(string \<Rightarrow> string \<Rightarrow> int) \<Rightarrow> galleryItem \<Rightarrow> galleryItem \<Rightarrow> int" where
  \<comment> \<open>The comparator handed to \<open>galleryItems.sort\<close>; \<open>localeCompare\<close> is
      \<open>String.prototype.localeCompare\<close>, which depends on the locale of the server.\<close>
  "compareItems localeCompare a b =
     (if isFolderItem a \<and> \<not> isFolderItem b then -1
      else if \<not> isFolderItem a \<and> isFolderItem b then 1
      else localeCompare (sortKey a) (sortKey b))"

text \<open>
  \<open>Array.prototype.sort\<close> is stable, and for a comparator that is a consistent order
  its result is determined: the one arrangement of the elements that is ordered and keeps
  elements that compare equal in their order. Insertion from the right computes it.
\<close>

fun insertItem ::
  "(string \<Rightarrow> string \<Rightarrow> int) \<Rightarrow> galleryItem \<Rightarrow> galleryItem list \<Rightarrow> galleryItem list" where
  "insertItem localeCompare x [] = [x]"
| "insertItem localeCompare x (y # ys) =
     (if compareItems localeCompare x y \<le> 0 then x # y # ys
      else y # insertItem localeCompare x ys)"

definition sortItems ::
  "(string \<Rightarrow> string \<Rightarrow> int) \<Rightarrow> galleryItem list \<Rightarrow> galleryItem list" where
  "sortItems localeCompare items = foldr (insertItem localeCompare) items []"

section \<open>The flattened list of all media files\<close>

text \<open>
  \<open>collectAllMediaFiles\<close> reads a directory and hands every entry to an asynchronous
  callback, all callbacks started together under \<open>Promise.all\<close>; a callback pushes its
  file onto the shared list when its own \<open>await\<close> resumes. So the list is in the order
  in which the callbacks resume, not in the order of the entries:
  \<^item> a file that is not a JPEG is pushed one turn of the job queue after the directory
    was listed;
  \<^item> a JPEG waits once more, for \<open>getExifData\<close> inside \<open>processMediaFileForModal\<close>,
    and is pushed after every file of the directory that is not a JPEG;
  \<^item> a subdirectory contributes nothing before its own \<open>readdir\<close> has completed, which
    takes a turn of the event loop: after all the files of the directory listing it.
  The order in which the reads that are under way complete is up to the operating
  system. \<open>sched\<close> picks, at each completion, which of them it is (by position, modulo
  their number; the first when the list has run out).
\<close>

type_synonym pendingRead = "string \<times> string list \<times> node"

definition modalEntry :: "(int \<Rightarrow> string) \<Rightarrow> string \<Rightarrow> string list \<Rightarrow> node \<Rightarrow> MediaEntry" where
  "modalEntry formatDate currentDir relativePathSegments entry =
     processMediaFileForModal formatDate (Some entry)
       (pathJoin [currentDir, entryName entry])
       (pathJoin (relativePathSegments @ [entryName entry]))"

definition pushedBy ::
  "(int \<Rightarrow> string) \<Rightarrow> string \<Rightarrow> string list \<Rightarrow> node list \<Rightarrow> MediaEntry list" where
  \<comment> \<open>What the callbacks of one listed directory push, in the order they push it.\<close>
  "pushedBy formatDate currentDir relativePathSegments dirEntries =
     (let media =
            map (modalEntry formatDate currentDir relativePathSegments)
              (filter (\<lambda>e. isFile e \<and> isMediaName (entryName e)) dirEntries)
      in filter (\<lambda>m. ext m \<notin> set jpegExtensions) media
         @ filter (\<lambda>m. ext m \<in> set jpegExtensions) media)"

definition startedBy :: "string \<Rightarrow> string list \<Rightarrow> node list \<Rightarrow> pendingRead list" where
  \<comment> \<open>The recursive calls of one listed directory: the reads it starts.\<close>
  "startedBy currentDir relativePathSegments dirEntries =
     map (\<lambda>e. (pathJoin [currentDir, entryName e], relativePathSegments @ [entryName e], e))
       (filter isDirectory dirEntries)"

definition chosen :: "nat list \<Rightarrow> nat \<Rightarrow> nat" where
  "chosen sched n = (case sched of [] \<Rightarrow> 0 | i # rest \<Rightarrow> i mod n)"

definition pendingSize :: "pendingRead list \<Rightarrow> nat" where
  "pendingSize ps = sum_list (map (\<lambda>p. size (snd (snd p))) ps)"

function runReads ::
  "(int \<Rightarrow> string) \<Rightarrow> nat list \<Rightarrow> pendingRead list \<Rightarrow> MediaEntry list
   \<Rightarrow> errno + MediaEntry list" where
  "runReads formatDate sched [] acc = Inr acc"
| "runReads formatDate sched (p # ps) acc =
     (let k = chosen sched (length (p # ps));
          currentDir = fst ((p # ps) ! k);
          relativePathSegments = fst (snd ((p # ps) ! k));
          dir = snd (snd ((p # ps) ! k));
          others = take k (p # ps) @ drop (Suc k) (p # ps)
      in case readdir dir of
           Inl e \<Rightarrow> Inl e
         | Inr dirEntries \<Rightarrow>
             runReads formatDate (tl sched)
               (others @ startedBy currentDir relativePathSegments dirEntries)
               (acc @ pushedBy formatDate currentDir relativePathSegments dirEntries))"
  by pat_completeness auto
termination
proof (relation "measure (\<lambda>(formatDate, sched, pending, acc). pendingSize pending)")
  show "wf (measure (\<lambda>(formatDate, sched, pending, acc). pendingSize pending))"
    by simp
next
  fix formatDate :: "int \<Rightarrow> string" and sched :: "nat list"
    and p :: pendingRead and ps :: "pendingRead list" and acc :: "MediaEntry list"
    and k currentDir relativePathSegments dir others dirEntries
  assume k: "k = chosen sched (length (p # ps))"
    and cd: "currentDir = fst ((p # ps) ! k)"
    and segs: "relativePathSegments = fst (snd ((p # ps) ! k))"
    and dir: "dir = snd (snd ((p # ps) ! k))"
    and others: "others = take k (p # ps) @ drop (Suc k) (p # ps)"
    and rd: "readdir dir = Inr dirEntries"
  have kl: "k < length (p # ps)"
    unfolding k by (simp add: chosen_def split: list.splits)
  have "p # ps = take k (p # ps) @ ((p # ps) ! k) # drop (Suc k) (p # ps)"
    using kl by (simp only: id_take_nth_drop)
  then have "pendingSize (p # ps)
      = pendingSize (take k (p # ps) @ ((p # ps) ! k) # drop (Suc k) (p # ps))"
    by simp
  then have removed: "pendingSize others + size dir = pendingSize (p # ps)"
    unfolding others dir by (simp add: pendingSize_def)
  have filtered: "size_list size (filter P es) \<le> size_list size es"
    for P and es :: "node list"
    by (induction es) auto
  have "pendingSize (startedBy currentDir relativePathSegments dirEntries)
      = sum_list (map size (filter isDirectory dirEntries))"
    by (simp add: pendingSize_def startedBy_def comp_def)
  also have "\<dots> \<le> size_list size (filter isDirectory dirEntries)"
    by (induction dirEntries) auto
  also have "\<dots> \<le> size_list size dirEntries"
    by (rule filtered)
  also have "\<dots> < size dir"
    using rd by (cases dir) auto
  finally have "pendingSize (startedBy currentDir relativePathSegments dirEntries) < size dir" .
  with removed
  have "pendingSize (others @ startedBy currentDir relativePathSegments dirEntries)
      < pendingSize (p # ps)"
    by (simp add: pendingSize_def)
  then show "((formatDate, tl sched, others @ startedBy currentDir relativePathSegments dirEntries,
        acc @ pushedBy formatDate currentDir relativePathSegments dirEntries),
       formatDate, sched, p # ps, acc)
      \<in> measure (\<lambda>(formatDate, sched, pending, acc). pendingSize pending)"
    by simp
qed

definition collectAllMediaFiles ::
  "(int \<Rightarrow> string) \<Rightarrow> nat list \<Rightarrow> node \<Rightarrow> string \<Rightarrow> errno + MediaEntry list" where
  \<comment> \<open>\<open>collectAllMediaFiles(rootPath)\<close> and the list it leaves in
      \<open>allMediaFilesForModal\<close>; \<open>Inl\<close> when the promise rejects.\<close>
  "collectAllMediaFiles formatDate sched fsys rootPath =
     (case statPath fsys rootPath of
        Inl e \<Rightarrow> Inl e
      | Inr d \<Rightarrow> runReads formatDate sched [(rootPath, [], d)] [])"

section \<open>Pages and routes\<close>

text \<open>
  A rendered page, without its markup: the tiles of \<open>fileListHtml\<close> in their order and
  the list handed to the script of the page. \<open>FolderTile href src caption\<close> is the link
  of a folder; \<open>FileTile index video src caption\<close> is the container of a file with its
  \<open>data-index\<close>, \<open>video\<close> telling a \<open>video\<close> element from an \<open>img\<close>.
\<close>

datatype tile =
    FolderTile string string string
  | FileTile int bool string string

record page =
  title :: string
  tiles :: "tile list"
  mediaFilesForModal :: "MediaEntry list"
  viewType :: string

datatype response = Page page | Status500 string | CallNext

definition projectTitle :: string where
  "projectTitle = ''VCC Gallery''"

fun findIndex :: "('a \<Rightarrow> bool) \<Rightarrow> 'a list \<Rightarrow> int" where
  \<comment> \<open>\<open>Array.prototype.findIndex\<close>: the first position that satisfies, or -1.\<close>
  "findIndex P [] = -1"
| "findIndex P (x # xs) =
     (if P x then 0 else (let i = findIndex P xs in if i < 0 then -1 else i + 1))"

fun mainTile :: "MediaEntry list \<Rightarrow> galleryItem \<Rightarrow> tile" where
  "mainTile allMediaFilesForModal (FolderItem n c t l) = FolderTile l t c"
| "mainTile allMediaFilesForModal (FileItem m t) =
     FileTile (findIndex (\<lambda>f. relFile f = relFile m) allMediaFilesForModal)
       (ext m \<in> set videoExtensions) t (caption m)"

definition readdirAt :: "node \<Rightarrow> string \<Rightarrow> errno + node list" where
  "readdirAt fsys p = (case statPath fsys p of Inl e \<Rightarrow> Inl e | Inr d \<Rightarrow> readdir d)"

text \<open>
  The routes. \<open>fsys\<close> is the node of \<open>/\<close> and \<open>rootPath\<close> stands for
  \<open>path.join(__dirname, photosDirectory)\<close>, the absolute path of the media root, so that
  \<open>path.join(__dirname, photosDirectory, x)\<close> is \<open>path.join(rootPath, x)\<close>.
\<close>

definition mainRoute ::
  "(int \<Rightarrow> string) \<Rightarrow> (string \<Rightarrow> string \<Rightarrow> int) \<Rightarrow> nat list \<Rightarrow> node \<Rightarrow> string \<Rightarrow> response" where
  "mainRoute formatDate localeCompare sched fsys rootPath =
     (case readdirAt fsys rootPath of
        Inl e \<Rightarrow> Status500 ''An error occurred while building the gallery.''
      | Inr entries \<Rightarrow>
          (let galleryItems =
                 sortItems localeCompare
                   (List.map_filter (galleryItemOf formatDate rootPath) entries)
           in case collectAllMediaFiles formatDate sched fsys rootPath of
                Inl e \<Rightarrow> Status500 ''An error occurred while building the gallery.''
              | Inr allMediaFilesForModal \<Rightarrow>
                  Page \<lparr>title = projectTitle,
                        tiles = map (mainTile allMediaFilesForModal) galleryItems,
                        mediaFilesForModal = allMediaFilesForModal,
                        viewType = ''main''\<rparr>))"

definition folderTile :: "nat \<times> MediaEntry \<Rightarrow> tile" where
  "folderTile p =
     FileTile (int (fst p)) (ext (snd p) \<in> set videoExtensions)
       (''/'' @ relFile (snd p)) (caption (snd p))"

definition folderRoute :: "(int \<Rightarrow> string) \<Rightarrow> node \<Rightarrow> string \<Rightarrow> string \<Rightarrow> response" where
  \<comment> \<open>The handler of \<open>/:potentialFolderName\<close>; \<open>folderName\<close> is
      \<open>req.params.potentialFolderName\<close>, the matched segment of the URL after decoding.\<close>
  "folderRoute formatDate fsys rootPath folderName =
     (let folderFullPath = pathJoin [rootPath, folderName]
      in case statPath fsys folderFullPath of
           Inl e \<Rightarrow>
             if e = ENOENT then CallNext
             else Status500 ''An error occurred while building the folder gallery.''
         | Inr folder \<Rightarrow>
             if isDirectory folder then
               (let folderRelativePath = folderName;
                    mediaFiles = getMediaFilesFromDirectory (Some folder);
                    folderMediaFilesForModal =
                      map (\<lambda>f. processMediaFileForModal formatDate
                                 (entryAt folder f)
                                 (pathJoin [folderFullPath, f])
                                 (pathJoin [folderRelativePath, f]))
                        mediaFiles
                in Page \<lparr>title = projectTitle @ '' - '' @ folderName,
                         tiles = map folderTile (enumerate 0 folderMediaFilesForModal),
                         mediaFilesForModal = folderMediaFilesForModal,
                         viewType = ''folder''\<rparr>)
             else CallNext)"

section \<open>Notions the properties are stated with\<close>

definition validName :: "string \<Rightarrow> bool" where
  \<comment> \<open>A name a directory can hold: not empty, not \<open>.\<close> or \<open>..\<close>, without a slash.\<close>
  "validName n = (n \<noteq> [] \<and> n \<noteq> ''.'' \<and> n \<noteq> ''..'' \<and> CHR ''/'' \<notin> set n)"

fun readableTree :: "node \<Rightarrow> bool" where
  \<comment> \<open>Every directory of the tree can be listed.\<close>
  "readableTree (DirN n es) = (\<forall>e \<in> set es. readableTree e)"
| "readableTree (BadDirN n) = False"
| "readableTree other = True"

fun replaceRunsAux :: "bool \<Rightarrow> string \<Rightarrow> string" where
  "replaceRunsAux inRun [] = []"
| "replaceRunsAux inRun (c # cs) =
     (if isHyphenUnderscore c
      then (if inRun then replaceRunsAux True cs else CHR '' '' # replaceRunsAux True cs)
      else c # replaceRunsAux False cs)"

definition replaceRuns :: "string \<Rightarrow> string" where
  \<comment> \<open>The string with every maximal run of hyphens and underscores replaced by one
      space: the way the specification words \<open>split(/[-_]+/).join(" ")\<close>.\<close>
  "replaceRuns s = replaceRunsAux False s"

text \<open>
  The depth-first enumeration of the media files of a tree, every directory in the order
  of its listing and a subdirectory's files where the subdirectory stands: the order the
  specification gives for the flattened list.
\<close>

fun depthFirst :: "(int \<Rightarrow> string) \<Rightarrow> string \<Rightarrow> string list \<Rightarrow> node \<Rightarrow> MediaEntry list"
  and depthFirstAll :: "(int \<Rightarrow> string) \<Rightarrow> string \<Rightarrow> string list \<Rightarrow> node list \<Rightarrow> MediaEntry list"
  where
  "depthFirst formatDate currentDir segs (DirN n es) =
     depthFirstAll formatDate (pathJoin [currentDir, n]) (segs @ [n]) es"
| "depthFirst formatDate currentDir segs (FileN n x) =
     (if isMediaName n then [modalEntry formatDate currentDir segs (FileN n x)] else [])"
| "depthFirst formatDate currentDir segs (BadDirN n) = []"
| "depthFirst formatDate currentDir segs (OtherN n) = []"
| "depthFirstAll formatDate currentDir segs [] = []"
| "depthFirstAll formatDate currentDir segs (e # es) =
     depthFirst formatDate currentDir segs e @ depthFirstAll formatDate currentDir segs es"

fun codeUnitCompare :: "string \<Rightarrow> string \<Rightarrow> int" where
  \<comment> \<open>A sample for \<open>localeCompare\<close>: the comparison of two strings by their code units.\<close>
  "codeUnitCompare [] [] = 0"
| "codeUnitCompare [] (y # ys) = -1"
| "codeUnitCompare (x # xs) [] = 1"
| "codeUnitCompare (x # xs) (y # ys) =
     (if (of_char x :: nat) < of_char y then -1
      else if (of_char y :: nat) < of_char x then 1
      else codeUnitCompare xs ys)"

definition fileItemPaths :: "galleryItem list \<Rightarrow> string list" where
  \<comment> \<open>The relative paths of the file items of a list, in its order.\<close>
  "fileItemPaths items =
     List.map_filter
       (\<lambda>i. case i of FileItem m t \<Rightarrow> Some (relFile m) | FolderItem n c t l \<Rightarrow> None) items"

definition sampleFormatDate :: "int \<Rightarrow> string" where
  \<comment> \<open>A sample for \<open>formatDate\<close>: every instant falls on one day.\<close>
  "sampleFormatDate ms = ''March 15, 2024''"

definition sampleTags :: exifTags where
  "sampleTags =
     \<lparr>ImageDescription = Some '' At the beach '', Title = Some ''Sunset'', ObjectName = None,
      DateTimeOriginal = Some 1710460800, Model = Some ''X100''\<rparr>"

definition samplePhotos :: "node list" where
  "samplePhotos =
     [DirN ''sub''
        [FileN ''x.png'' None, FileN ''Cover-shot.JPG'' (Some sampleTags),
         DirN ''deep'' [FileN ''y.gif'' None]],
      FileN ''b.png'' None,
      FileN ''A.JPG'' None,
      FileN ''notes-from-trip.txt'' None,
      FileN ''beach_sunset.mp4'' None]"

definition sampleFsys :: node where
  "sampleFsys = DirN [] [DirN ''srv'' [DirN ''photos'' samplePhotos]]"

definition lockedFsys :: node where
  \<comment> \<open>A media root with a subfolder that cannot be listed.\<close>
  "lockedFsys =
     DirN [] [DirN ''srv'' [DirN ''photos'' [BadDirN ''private'', FileN ''a.png'' None]]]"

definition dateOnlyTags :: exifTags where
  "dateOnlyTags =
     \<lparr>ImageDescription = None, Title = None, ObjectName = None,
      DateTimeOriginal = Some 1710460800, Model = Some ''X100''\<rparr>"

definition modelOnlyTags :: exifTags where
  "modelOnlyTags =
     \<lparr>ImageDescription = None, Title = None, ObjectName = None,
      DateTimeOriginal = None, Model = Some ''X100''\<rparr>"


definition describedCoverFolder :: node where
  \<comment> \<open>A folder whose cover is a JPEG with an ImageDescription.\<close>
  "describedCoverFolder =
     DirN ''sub'' [FileN ''x.png'' None, FileN ''Cover-shot.JPG'' (Some sampleTags)]"

definition coverFolder :: node where
  \<comment> \<open>A folder with \<open>cover.png\<close> and three other images.\<close>
  "coverFolder =
     DirN ''my_trip''
       [FileN ''z.png'' None, FileN ''a.png'' None, FileN ''cover.png'' None,
        FileN ''b.gif'' None]"

definition pendingMedia :: "(int \<Rightarrow> string) \<Rightarrow> pendingRead list \<Rightarrow> MediaEntry list" where
  \<comment> \<open>The media files below the directories whose reads are under way, depth first.\<close>
  "pendingMedia formatDate pending =
     concat (map (\<lambda>p. case readdir (snd (snd p)) of
                          Inl e \<Rightarrow> []
                        | Inr es \<Rightarrow> depthFirstAll formatDate (fst p) (fst (snd p)) es) pending)"

definition nestedFirstFsys :: node where
  \<comment> \<open>A media root that lists a folder before a loose file.\<close>
  "nestedFirstFsys =
     DirN [] [DirN ''srv'' [DirN ''photos''
       [DirN ''aaa'' [FileN ''x.png'' None], FileN ''b.png'' None]]]"

section \<open>Properties\<close>

subsection \<open>Strings and paths\<close>

lemma splitSlash_nonempty: "splitSlash s \<noteq> []"
  by (induction s) (auto split: list.splits)

lemma splitSlash_noslash: "CHR ''/'' \<notin> set n \<Longrightarrow> splitSlash n = [n]"
  by (induction n) (auto simp: isSlash_def)

lemma splitSlash_append:
  "CHR ''/'' \<notin> set n \<Longrightarrow> splitSlash (xs @ CHR ''/'' # n) = splitSlash xs @ [n]"
proof (induction xs)
  case Nil
  then show ?case by (simp add: isSlash_def splitSlash_noslash)
next
  case (Cons c cs)
  then show ?case
    using splitSlash_nonempty [of cs] by (auto split: list.splits)
qed

lemma normalizeSegs_append:
  "normalizeSegs b acc (ss @ ts) = normalizeSegs b (rev (normalizeSegs b acc ss)) ts"
  by (induction b acc ss rule: normalizeSegs.induct) (auto split: list.splits)

lemma normalizeSegs_snoc:
  "validName n \<Longrightarrow> normalizeSegs b acc (ss @ [n]) = normalizeSegs b acc ss @ [n]"
  by (simp add: normalizeSegs_append validName_def)

lemma joinWith_snoc:
  "joinWith sep (xs @ [n]) = (if xs = [] then n else joinWith sep xs @ sep @ n)"
  by (induction sep xs rule: joinWith.induct) auto

lemma basename_suffix:
  assumes "n \<noteq> []" "CHR ''/'' \<notin> set n" "xs = [] \<or> last xs = CHR ''/''"
  shows "basename (xs @ n) = n"
proof -
  have a: "dropWhile isSlash (rev n @ rev xs) = rev n @ rev xs"
    using assms(1,2) by (cases "rev n") (auto simp: isSlash_def)
  have all: "\<forall>c \<in> set (rev n). \<not> isSlash c"
    using assms(2) by (auto simp: isSlash_def)
  have b: "takeWhile (\<lambda>c. \<not> isSlash c) (rev n @ rev xs) = rev n"
  proof (cases xs rule: rev_cases)
    case Nil
    then show ?thesis using all by (simp add: takeWhile_eq_all_conv)
  next
    case (snoc ys y)
    then have "y = CHR ''/''" using assms(3) by simp
    then have "takeWhile (\<lambda>c. \<not> isSlash c) (rev xs) = []"
      using snoc by (simp add: isSlash_def)
    moreover have "takeWhile (\<lambda>c. \<not> isSlash c) (rev n @ rev xs)
        = rev n @ takeWhile (\<lambda>c. \<not> isSlash c) (rev xs)"
      using all by (intro takeWhile_append2) blast
    ultimately show ?thesis by simp
  qed
  show ?thesis
    unfolding basename_def by (simp only: rev_append a b rev_rev_ident)
qed

lemma normalize_ends:
  assumes "splitSlash J = S @ [n]" "validName n" "J = Y @ n"
  shows "\<exists>X. normalize J = X @ n \<and> (X = [] \<or> last X = CHR ''/'')"
proof -
  have n: "n \<noteq> []" "CHR ''/'' \<notin> set n" using assms(2) by (auto simp: validName_def)
  have J: "J \<noteq> []" using assms(3) n by simp
  have "last n \<noteq> CHR ''/''"
    using n by (metis last_in_set)
  then have lastJ: "\<not> isSlash (last J)"
    using assms(3) n by (simp add: isSlash_def)
  define b where "b = (\<not> isSlash (hd J))"
  define N where "N = normalizeSegs b [] S"
  have q: "normalizeSegs b [] (splitSlash J) = N @ [n]"
    unfolding assms(1) N_def by (rule normalizeSegs_snoc [OF assms(2)])
  have jq: "joinWith ''/'' (N @ [n]) \<noteq> []"
    using n by (simp add: joinWith_snoc)
  have "normalize J = (if isSlash (hd J) then ''/'' else []) @ joinWith ''/'' (N @ [n])"
    using J lastJ q jq by (simp add: normalize_def Let_def b_def)
  also have "\<dots> = ((if isSlash (hd J) then ''/'' else []) @ (if N = [] then [] else joinWith ''/'' N @ ''/'')) @ n"
    by (simp add: joinWith_snoc)
  finally show ?thesis
    by (intro exI [where x = "(if isSlash (hd J) then ''/'' else []) @ (if N = [] then [] else joinWith ''/'' N @ ''/'')"]) auto
qed

lemma pathJoin_ends:
  assumes "validName n"
  shows "\<exists>X. pathJoin (pre @ [n]) = X @ n \<and> (X = [] \<or> last X = CHR ''/'')"
proof -
  have n: "n \<noteq> []" "CHR ''/'' \<notin> set n" using assms by (auto simp: validName_def)
  define F where "F = filter (\<lambda>a. a \<noteq> []) pre"
  define J where "J = joinWith ''/'' (F @ [n])"
  have Jn: "J = (if F = [] then [] else joinWith ''/'' F @ ''/'') @ n"
    by (simp add: J_def joinWith_snoc)
  have split: "\<exists>S. splitSlash J = S @ [n]"
  proof (cases "F = []")
    case True
    then show ?thesis using n by (simp add: Jn splitSlash_noslash)
  next
    case False
    then have "splitSlash J = splitSlash (joinWith ''/'' F) @ [n]"
      using splitSlash_append [OF n(2), of "joinWith ''/'' F"] by (simp add: Jn)
    then show ?thesis by blast
  qed
  then obtain S where S: "splitSlash J = S @ [n]" by blast
  have "pathJoin (pre @ [n]) = normalize J"
    using n by (simp add: pathJoin_def Let_def F_def J_def Jn joinWith_snoc)
  then show ?thesis
    using normalize_ends [OF S assms Jn] by simp
qed

lemma basename_pathJoin:
  assumes "validName n"
  shows "basename (pathJoin (pre @ [n])) = n"
proof -
  obtain X where X: "pathJoin (pre @ [n]) = X @ n" "X = [] \<or> last X = CHR ''/''"
    using pathJoin_ends [OF assms] by blast
  show ?thesis
    unfolding X(1) using assms X(2) by (intro basename_suffix) (auto simp: validName_def)
qed

lemma basename_valid: "validName n \<Longrightarrow> basename n = n"
  using basename_suffix [of n "[]"] by (simp add: validName_def)

lemma extname_pathJoin: "validName n \<Longrightarrow> extname (pathJoin (pre @ [n])) = extname n"
  by (simp add: extname_def basename_pathJoin basename_valid)

lemma parseName_pathJoin: "validName n \<Longrightarrow> parseName (pathJoin (pre @ [n])) = parseName n"
  by (simp add: parseName_def basename_pathJoin basename_valid)

lemma normalizeSegs_valid:
  "\<forall>s \<in> set ss. validName s \<Longrightarrow> normalizeSegs b acc ss = rev acc @ ss"
  by (induction ss arbitrary: acc) (auto simp: validName_def)

lemma splitSlash_join:
  "ss \<noteq> [] \<Longrightarrow> \<forall>s \<in> set ss. CHR ''/'' \<notin> set s \<Longrightarrow> splitSlash (joinWith ''/'' ss) = ss"
proof (induction ss rule: rev_nonempty_induct)
  case (single x)
  then show ?case by (simp add: splitSlash_noslash)
next
  case (snoc x xs)
  then show ?case
    using splitSlash_append [of x "joinWith ''/'' xs"] by (simp add: joinWith_snoc)
qed

lemma pathJoin_valid:
  assumes "ss \<noteq> []" "\<forall>s \<in> set ss. validName s"
  shows "pathJoin ss = joinWith ''/'' ss"
proof -
  have ne: "filter (\<lambda>a. a \<noteq> []) ss = ss"
    using assms(2) by (auto simp: validName_def filter_id_conv)
  define J where "J = joinWith ''/'' ss"
  have sp: "splitSlash J = ss"
    unfolding J_def using assms by (intro splitSlash_join) (auto simp: validName_def)
  obtain xs x where ss: "ss = xs @ [x]" using assms(1) by (cases ss rule: rev_cases) auto
  have x: "x \<noteq> []" "CHR ''/'' \<notin> set x" using assms(2) ss by (auto simp: validName_def)
  have Jx: "J = (if xs = [] then [] else joinWith ''/'' xs @ ''/'') @ x"
    by (simp add: J_def ss joinWith_snoc)
  have J: "J \<noteq> []" using x Jx by simp
  have "last x \<noteq> CHR ''/''"
    using x by (metis last_in_set)
  then have lastJ: "\<not> isSlash (last J)"
    using x Jx by (simp add: isSlash_def)
  obtain y ys where ys: "ss = y # ys" using assms(1) by (cases ss) auto
  have y: "y \<noteq> []" "CHR ''/'' \<notin> set y" using assms(2) ys by (auto simp: validName_def)
  have "hd J = hd y" using y ys by (cases ys) (auto simp: J_def)
  then have hdJ: "\<not> isSlash (hd J)" using y by (cases y) (auto simp: isSlash_def)
  have "normalize J = J"
    using J lastJ hdJ assms(2) by (simp add: normalize_def Let_def sp normalizeSegs_valid J_def[symmetric])
  then show ?thesis
    using J by (simp add: pathJoin_def ne J_def Let_def)
qed

lemma relFile_process [simp]:
  "relFile (processMediaFileForModal formatDate x fullPath relativePath) = relativePath"
  by (simp add: processMediaFileForModal_def Let_def)

lemma ext_process [simp]:
  "ext (processMediaFileForModal formatDate x fullPath relativePath)
     = toLowerCase (extname fullPath)"
  by (simp add: processMediaFileForModal_def Let_def)

subsection \<open>The directory scanner\<close>

lemma fileItemPaths_items:
  "fileItemPaths (List.map_filter (galleryItemOf formatDate rootPath) es)
     = filter isMediaName (map entryName (filter isFile es))"
proof (induction es)
  case Nil
  then show ?case by (simp add: fileItemPaths_def List.map_filter_simps)
next
  case (Cons e es)
  then show ?case
    by (cases e)
      (auto simp: fileItemPaths_def List.map_filter_simps galleryItemOf_def Let_def
        isMediaName_def)
qed

subsection \<open>Captions\<close>

lemma splitAux_nonempty: "splitAux r s \<noteq> []"
  by (induction r s rule: splitAux.induct) (auto split: list.splits)

lemma joinWith_Cons_Cons: "joinWith sep ((c # p) # ps) = c # joinWith sep (p # ps)"
  by (cases ps) auto

lemma joinWith_Nil_Cons: "ps \<noteq> [] \<Longrightarrow> joinWith sep ([] # ps) = sep @ joinWith sep ps"
  by (cases ps) auto

lemma join_split_replace: "joinWith '' '' (splitAux r s) = replaceRunsAux r s"
proof (induction r s rule: splitAux.induct)
  case (1 inRun)
  then show ?case by simp
next
  case (2 inRun c cs)
  show ?case
  proof (cases "isHyphenUnderscore c")
    case True
    then show ?thesis
      using 2 splitAux_nonempty [of True cs] by (simp add: joinWith_Nil_Cons)
  next
    case False
    obtain p ps where ps: "splitAux False cs = p # ps"
      using splitAux_nonempty [of False cs] by (cases "splitAux False cs") auto
    then show ?thesis
      using 2 False by (simp add: joinWith_Cons_Cons)
  qed
qed

lemma spacedName_replaceRuns: "spacedName s = trim (replaceRuns s)"
  by (simp add: spacedName_def splitRuns_def replaceRuns_def join_split_replace)

lemma trim_empty_iff: "trim s = [] \<longleftrightarrow> (\<forall>c \<in> set s. isWhiteSpace c)"
proof
  assume "trim s = []"
  then have "dropWhile isWhiteSpace (rev (dropWhile isWhiteSpace s)) = []"
    by (simp add: trim_def)
  then have a: "\<forall>c \<in> set (dropWhile isWhiteSpace s). isWhiteSpace c"
    by (simp add: dropWhile_eq_Nil_conv)
  show "\<forall>c \<in> set s. isWhiteSpace c"
  proof (rule ccontr)
    assume "\<not> (\<forall>c \<in> set s. isWhiteSpace c)"
    then have "dropWhile isWhiteSpace s \<noteq> []"
      by (simp add: dropWhile_eq_Nil_conv)
    then have "\<not> isWhiteSpace (hd (dropWhile isWhiteSpace s))"
      by (rule hd_dropWhile)
    moreover have "hd (dropWhile isWhiteSpace s) \<in> set (dropWhile isWhiteSpace s)"
      using \<open>dropWhile isWhiteSpace s \<noteq> []\<close> by (rule hd_in_set)
    ultimately show False using a by blast
  qed
next
  assume "\<forall>c \<in> set s. isWhiteSpace c"
  then have "dropWhile isWhiteSpace s = []"
    by (simp add: dropWhile_eq_Nil_conv)
  then show "trim s = []"
    by (simp only: trim_def rev.simps dropWhile.simps)
qed

lemma space_isWhiteSpace: "isWhiteSpace (CHR '' '')"
  by code_simp

lemma hyphen_not_white: "isHyphenUnderscore c \<Longrightarrow> \<not> isWhiteSpace c"
proof -
  have "\<not> isWhiteSpace (CHR ''-'')" "\<not> isWhiteSpace (CHR ''_'')"
    by code_simp+
  then show "isHyphenUnderscore c \<Longrightarrow> \<not> isWhiteSpace c"
    by (auto simp: isHyphenUnderscore_def)
qed

lemma replaceRunsAux_white:
  "(\<forall>c \<in> set (replaceRunsAux r s). isWhiteSpace c)
     \<longleftrightarrow> (\<forall>c \<in> set s. isHyphenUnderscore c \<or> isWhiteSpace c)"
  by (induction r s rule: replaceRunsAux.induct) (auto simp: space_isWhiteSpace)

lemma spacedName_empty_iff:
  "spacedName s = [] \<longleftrightarrow> (\<forall>c \<in> set s. isHyphenUnderscore c \<or> isWhiteSpace c)"
  by (simp add: spacedName_replaceRuns trim_empty_iff replaceRuns_def replaceRunsAux_white)

lemma getExifData_None [simp]: "getExifData at = None"
  by (induction at rule: getExifData.induct) (simp_all add: parserTags_def)

lemma caption_by_name:
  "caption (processMediaFileForModal formatDate at fullPath relativePath)
     = (if toLowerCase (extname fullPath) \<in> set videoExtensions then ''Video''
        else trim (replaceRuns (parseName relativePath)))"
  by (simp add: processMediaFileForModal_def Let_def spacedName_replaceRuns)

text \<open>
  C1 fails on the code. \<open>getExifData\<close> returns the property \<open>tags\<close> of the parser and
  never the result of \<open>parse()\<close>, so the test \<open>if (exifData)\<close> fails for every file and
  no description tag is looked at. The JPEG \<open>sub/Cover-shot.JPG\<close> holds the
  ImageDescription \<open>At the beach\<close> (with blanks around it) and a capture time: the claim
  gives the caption \<open>At the beach\<close>, the code derives \<open>Cover shot\<close> from the name of the
  file.
\<close>

theorem description_tags_never_read:
  "toLowerCase (extname ''/srv/photos/sub/Cover-shot.JPG'') \<in> set jpegExtensions
   \<and> ImageDescription sampleTags = Some '' At the beach ''
   \<and> DateTimeOriginal sampleTags = Some 1710460800
   \<and> getExifData (Some (FileN ''Cover-shot.JPG'' (Some sampleTags))) = None
   \<and> caption (processMediaFileForModal formatDate (Some (FileN ''Cover-shot.JPG'' (Some sampleTags)))
        ''/srv/photos/sub/Cover-shot.JPG'' ''sub/Cover-shot.JPG'') = ''Cover shot''"
proof -
  have tags: "toLowerCase (extname ''/srv/photos/sub/Cover-shot.JPG'') \<in> set jpegExtensions
      \<and> ImageDescription sampleTags = Some '' At the beach ''
      \<and> DateTimeOriginal sampleTags = Some 1710460800"
    by code_simp
  have "caption (processMediaFileForModal formatDate (Some (FileN ''Cover-shot.JPG'' (Some sampleTags)))
        ''/srv/photos/sub/Cover-shot.JPG'' ''sub/Cover-shot.JPG'')
      = (if toLowerCase (extname ''/srv/photos/sub/Cover-shot.JPG'') \<in> set videoExtensions
         then ''Video'' else trim (replaceRuns (parseName ''sub/Cover-shot.JPG'')))"
    by (rule caption_by_name)
  also have "\<dots> = ''Cover shot''"
    by code_simp
  finally show ?thesis
    using tags by simp
qed

text \<open>
  C2 fails on the code, by the defect of C1: no tag is ever read, so the steps of the
  chain for DateTimeOriginal and Model are never taken. The JPEG \<open>a.jpg\<close> with a capture
  time gets the caption \<open>a\<close> where the claim gives the formatted date, and with a camera
  model it gets \<open>a\<close> where the claim gives \<open>X100\<close>. The last two steps are as the claim
  says, for every file: \<open>Video\<close> for the extensions \<open>.mp4\<close>, \<open>.mov\<close>, \<open>.webm\<close>, and
  otherwise the name without its extension, every run of hyphens and underscores
  replaced by one space, trimmed.
\<close>

theorem capture_time_and_model_never_read:
  "DateTimeOriginal dateOnlyTags = Some 1710460800
   \<and> caption (processMediaFileForModal formatDate (Some (FileN ''a.jpg'' (Some dateOnlyTags)))
        ''/srv/photos/a.jpg'' ''a.jpg'') = ''a''
   \<and> Model modelOnlyTags = Some ''X100''
   \<and> caption (processMediaFileForModal formatDate (Some (FileN ''a.jpg'' (Some modelOnlyTags)))
        ''/srv/photos/a.jpg'' ''a.jpg'') = ''a''
   \<and> caption (processMediaFileForModal formatDate at fullPath relativePath)
     = (if toLowerCase (extname fullPath) \<in> set videoExtensions then ''Video''
        else trim (replaceRuns (parseName relativePath)))"
proof -
  have tags: "DateTimeOriginal dateOnlyTags = Some 1710460800"
    "Model modelOnlyTags = Some ''X100''"
    by code_simp+
  have byName: "(if toLowerCase (extname ''/srv/photos/a.jpg'') \<in> set videoExtensions
         then ''Video'' else trim (replaceRuns (parseName ''a.jpg''))) = ''a''"
    by code_simp
  have a: "caption (processMediaFileForModal formatDate (Some (FileN ''a.jpg'' x))
        ''/srv/photos/a.jpg'' ''a.jpg'') = ''a''" for x
    using caption_by_name [of formatDate "Some (FileN ''a.jpg'' x)" "''/srv/photos/a.jpg''"
        "''a.jpg''"] byName
    by simp
  show ?thesis
    by (intro conjI tags a caption_by_name)
qed

subsection \<open>The display order\<close>



lemma mset_insertItem: "mset (insertItem lc x ys) = add_mset x (mset ys)"
  by (induction ys) auto

lemma mset_sortItems: "mset (sortItems lc xs) = mset xs"
  by (induction xs) (auto simp: sortItems_def mset_insertItem)








subsection \<open>The cover of a folder\<close>

lemma not_isMediaName_Nil: "\<not> isMediaName []"
  by code_simp

lemma isMediaName_nonempty: "isMediaName f \<Longrightarrow> f \<noteq> []"
  using not_isMediaName_Nil by auto

lemma media_nonempty:
  "f \<in> set (getMediaFilesFromDirectory d) \<Longrightarrow> f \<noteq> []"
  using not_isMediaName_Nil
  by (auto simp: getMediaFilesFromDirectory_def split: option.splits sum.splits)

lemma last_splitSlash_valid: "validName n \<Longrightarrow> last (splitSlash n) = n"
  by (simp add: validName_def splitSlash_noslash)

lemma coverCaption_by_name:
  "findFolderCover folder rel = Some cv
   \<Longrightarrow> coverCaption cv = spacedName (last (splitSlash rel))"
  by (auto simp: findFolderCover_def Let_def split: list.splits option.splits if_splits)

text \<open>
  C4 fails on the code in its last sentence, by the defect of C1. The choice of the
  cover is as the claim says: in \<open>coverFolder\<close>, among \<open>z.png\<close>, \<open>a.png\<close>,
  \<open>cover.png\<close> and \<open>b.gif\<close>, the cover is \<open>cover.png\<close>, with the caption made from
  the name of the folder. But \<open>getExifData\<close> never returns the tags of the cover: in
  \<open>describedCoverFolder\<close> the cover is the JPEG \<open>Cover-shot.JPG\<close>, which holds the
  ImageDescription \<open>At the beach\<close>, and the caption is still the name of the folder,
  \<open>sub\<close>, where the claim gives \<open>At the beach\<close>.
\<close>

theorem cover_description_never_read:
  "findFolderCover coverFolder (entryName coverFolder)
     = Some \<lparr>url = ''/my_trip/cover.png'', coverCaption = ''my trip'', coverExt = ''.png''\<rparr>
   \<and> ImageDescription sampleTags = Some '' At the beach ''
   \<and> entryAt describedCoverFolder ''Cover-shot.JPG''
     = Some (FileN ''Cover-shot.JPG'' (Some sampleTags))
   \<and> findFolderCover describedCoverFolder (entryName describedCoverFolder)
     = Some \<lparr>url = ''/sub/Cover-shot.JPG'', coverCaption = ''sub'', coverExt = ''.jpg''\<rparr>
   \<and> galleryItemOf sampleFormatDate ''/srv/photos'' describedCoverFolder
     = Some (FolderItem ''sub'' ''sub'' ''/sub/Cover-shot.JPG'' ''/sub'')
   \<and> galleryItemOf sampleFormatDate ''/srv/photos'' (DirN ''empty-folder'' [])
     = Some (FolderItem ''empty-folder'' ''empty folder'' ''/folder_icon.png'' ''/empty-folder'')"
  by code_simp

subsection \<open>A subfolder that cannot be listed\<close>

lemma chosen_one: "chosen sched (Suc 0) = 0"
  by (simp add: chosen_def split: list.splits)

lemma locked_root: "statPath lockedFsys ''/srv/photos''
    = Inr (DirN ''photos'' [BadDirN ''private'', FileN ''a.png'' None])"
  by code_simp

text \<open>
  C6 fails on the code. The media root of \<open>lockedFsys\<close> can be listed and holds the
  folder \<open>private\<close>, which cannot. The cover lookup takes the failure as an empty
  folder, and the item of the folder is built with the placeholder icon; but
  \<open>collectAllMediaFiles\<close>, which lists the same folder with no handler of its own,
  rejects, whatever the order of the reads, and the top-level route answers 500.
\<close>

theorem unreadable_subfolder_fails_page:
  "readdirAt lockedFsys ''/srv/photos'' = Inr [BadDirN ''private'', FileN ''a.png'' None]
   \<and> findFolderCover (BadDirN ''private'') ''private'' = None
   \<and> galleryItemOf formatDate ''/srv/photos'' (BadDirN ''private'')
     = Some (FolderItem ''private'' ''private'' ''/folder_icon.png'' ''/private'')
   \<and> collectAllMediaFiles formatDate sched lockedFsys ''/srv/photos'' = Inl EACCES
   \<and> mainRoute formatDate localeCompare sched lockedFsys ''/srv/photos''
     = Status500 ''An error occurred while building the gallery.''"
proof -
  have r: "readdirAt lockedFsys ''/srv/photos'' = Inr [BadDirN ''private'', FileN ''a.png'' None]"
    by (simp add: readdirAt_def locked_root)
  have c: "findFolderCover (BadDirN ''private'') ''private'' = None"
    by code_simp
  have s: "spacedName (last (splitSlash ''private'')) = ''private''"
    by code_simp
  have g: "galleryItemOf formatDate ''/srv/photos'' (BadDirN ''private'')
     = Some (FolderItem ''private'' ''private'' ''/folder_icon.png'' ''/private'')"
    by (simp add: galleryItemOf_def Let_def c s del: splitSlash.simps)
  have "startedBy ''/srv/photos'' [] [BadDirN ''private'', FileN ''a.png'' None]
      = [(pathJoin [''/srv/photos'', ''private''], [''private''], BadDirN ''private'')]"
    by (simp add: startedBy_def)
  then have w: "collectAllMediaFiles formatDate sched lockedFsys ''/srv/photos'' = Inl EACCES"
    by (simp add: collectAllMediaFiles_def locked_root chosen_one Let_def)
  show ?thesis
    using r c g w by (simp add: mainRoute_def Let_def)
qed

subsection \<open>The flattened list and the navigation index\<close>

lemma mset_pushedBy:
  "mset (pushedBy formatDate currentDir segs es)
     = mset (map (modalEntry formatDate currentDir segs)
         (filter (\<lambda>e. isFile e \<and> isMediaName (entryName e)) es))"
  by (simp add: pushedBy_def Let_def union_commute)

lemma pendingMedia_append:
  "pendingMedia formatDate (xs @ ys) = pendingMedia formatDate xs @ pendingMedia formatDate ys"
  by (simp add: pendingMedia_def)

lemma mset_depthFirstAll:
  "mset (depthFirstAll formatDate currentDir segs es)
     = mset (pushedBy formatDate currentDir segs es)
       + mset (pendingMedia formatDate (startedBy currentDir segs es))"
proof (induction es)
  case Nil
  then show ?case by (simp add: mset_pushedBy startedBy_def pendingMedia_def)
next
  case (Cons e es)
  then show ?case
    by (cases e) (simp_all add: mset_pushedBy startedBy_def pendingMedia_def)
qed

lemma mset_pendingMedia_remove:
  assumes "k < length ps"
  shows "mset (pendingMedia formatDate ps)
     = mset (pendingMedia formatDate (take k ps @ drop (Suc k) ps))
       + mset (pendingMedia formatDate [ps ! k])"
proof -
  have "ps = take k ps @ [ps ! k] @ drop (Suc k) ps"
    using assms by (simp add: id_take_nth_drop [symmetric])
  then have "mset (pendingMedia formatDate ps)
      = mset (pendingMedia formatDate (take k ps @ [ps ! k] @ drop (Suc k) ps))"
    by simp
  then show ?thesis
    by (simp only: pendingMedia_append mset_append ac_simps)
qed

lemma chosen_less: "0 < n \<Longrightarrow> chosen sched n < n"
  by (simp add: chosen_def split: list.splits)

lemma runReads_mset:
  "runReads formatDate sched pending acc = Inr result
   \<Longrightarrow> mset result = mset acc + mset (pendingMedia formatDate pending)"
proof (induction formatDate sched pending acc arbitrary: result rule: runReads.induct)
  case (1 formatDate sched acc)
  then show ?case by (simp add: pendingMedia_def)
next
  case (2 formatDate sched p ps acc)
  define k where "k = chosen sched (length (p # ps))"
  define currentDir where "currentDir = fst ((p # ps) ! k)"
  define segs where "segs = fst (snd ((p # ps) ! k))"
  define dir where "dir = snd (snd ((p # ps) ! k))"
  define others where "others = take k (p # ps) @ drop (Suc k) (p # ps)"
  have step: "runReads formatDate sched (p # ps) acc =
      (case readdir dir of
         Inl e \<Rightarrow> Inl e
       | Inr dirEntries \<Rightarrow>
           runReads formatDate (tl sched) (others @ startedBy currentDir segs dirEntries)
             (acc @ pushedBy formatDate currentDir segs dirEntries))"
    by (simp only: runReads.simps Let_def k_def currentDir_def segs_def dir_def others_def)
  have kl: "k < length (p # ps)"
    unfolding k_def by (rule chosen_less) simp
  obtain es where es: "readdir dir = Inr es"
    using "2.prems" unfolding step by (cases "readdir dir") simp_all
  have run: "runReads formatDate (tl sched) (others @ startedBy currentDir segs es)
      (acc @ pushedBy formatDate currentDir segs es) = Inr result"
    using "2.prems" es unfolding step by simp
  have ih: "mset result = mset (acc @ pushedBy formatDate currentDir segs es)
      + mset (pendingMedia formatDate (others @ startedBy currentDir segs es))"
    using "2.IH" [OF k_def currentDir_def segs_def dir_def others_def es run] .
  have one: "pendingMedia formatDate [(p # ps) ! k] = depthFirstAll formatDate currentDir segs es"
    using es by (simp add: pendingMedia_def currentDir_def segs_def dir_def)
  have "mset (pendingMedia formatDate (p # ps))
      = mset (pendingMedia formatDate others) + mset (depthFirstAll formatDate currentDir segs es)"
    using mset_pendingMedia_remove [OF kl, of formatDate] by (simp add: others_def one)
  then show ?case
    using ih by (simp add: pendingMedia_append mset_depthFirstAll)
qed

lemma runReads_prefix:
  "runReads formatDate sched pending acc = Inr result \<Longrightarrow> \<exists>rest. result = acc @ rest"
proof (induction formatDate sched pending acc arbitrary: result rule: runReads.induct)
  case (1 formatDate sched acc)
  then show ?case by simp
next
  case (2 formatDate sched p ps acc)
  define k where "k = chosen sched (length (p # ps))"
  define currentDir where "currentDir = fst ((p # ps) ! k)"
  define segs where "segs = fst (snd ((p # ps) ! k))"
  define dir where "dir = snd (snd ((p # ps) ! k))"
  define others where "others = take k (p # ps) @ drop (Suc k) (p # ps)"
  have step: "runReads formatDate sched (p # ps) acc =
      (case readdir dir of
         Inl e \<Rightarrow> Inl e
       | Inr dirEntries \<Rightarrow>
           runReads formatDate (tl sched) (others @ startedBy currentDir segs dirEntries)
             (acc @ pushedBy formatDate currentDir segs dirEntries))"
    by (simp only: runReads.simps Let_def k_def currentDir_def segs_def dir_def others_def)
  obtain es where es: "readdir dir = Inr es"
    using "2.prems" unfolding step by (cases "readdir dir") simp_all
  have run: "runReads formatDate (tl sched) (others @ startedBy currentDir segs es)
      (acc @ pushedBy formatDate currentDir segs es) = Inr result"
    using "2.prems" es unfolding step by simp
  obtain rest where "result = (acc @ pushedBy formatDate currentDir segs es) @ rest"
    using "2.IH" [OF k_def currentDir_def segs_def dir_def others_def es run] by blast
  then show ?case by simp
qed

lemma runReads_root_first:
  assumes "runReads formatDate sched [(currentDir, segs, DirN n es)] [] = Inr result"
  shows "\<exists>rest. result = pushedBy formatDate currentDir segs es @ rest"
proof -
  have "runReads formatDate (tl sched) (startedBy currentDir segs es)
      (pushedBy formatDate currentDir segs es) = Inr result"
    using assms by (simp add: chosen_one Let_def)
  then show ?thesis by (rule runReads_prefix)
qed

lemma readable_dir: "isDirectory d \<Longrightarrow> readableTree d \<Longrightarrow> \<exists>n es. d = DirN n es"
  by (cases d) auto

lemma runReads_total:
  "\<forall>p \<in> set pending. isDirectory (snd (snd p)) \<and> readableTree (snd (snd p))
   \<Longrightarrow> \<exists>result. runReads formatDate sched pending acc = Inr result"
proof (induction formatDate sched pending acc rule: runReads.induct)
  case (1 formatDate sched acc)
  then show ?case by simp
next
  case (2 formatDate sched p ps acc)
  define k where "k = chosen sched (length (p # ps))"
  define currentDir where "currentDir = fst ((p # ps) ! k)"
  define segs where "segs = fst (snd ((p # ps) ! k))"
  define dir where "dir = snd (snd ((p # ps) ! k))"
  define others where "others = take k (p # ps) @ drop (Suc k) (p # ps)"
  have step: "runReads formatDate sched (p # ps) acc =
      (case readdir dir of
         Inl e \<Rightarrow> Inl e
       | Inr dirEntries \<Rightarrow>
           runReads formatDate (tl sched) (others @ startedBy currentDir segs dirEntries)
             (acc @ pushedBy formatDate currentDir segs dirEntries))"
    by (simp only: runReads.simps Let_def k_def currentDir_def segs_def dir_def others_def)
  have kl: "k < length (p # ps)"
    unfolding k_def by (rule chosen_less) simp
  then have mem: "(p # ps) ! k \<in> set (p # ps)"
    by (rule nth_mem)
  then have "isDirectory dir" "readableTree dir"
    using "2.prems" by (auto simp: dir_def)
  then obtain n es where d: "dir = DirN n es"
    using readable_dir by blast
  then have es: "readdir dir = Inr es" by simp
  have sub: "set others \<subseteq> set (p # ps)"
    unfolding others_def using set_take_subset [of k "p # ps"] set_drop_subset [of "Suc k" "p # ps"]
    by auto
  have "\<forall>q \<in> set (others @ startedBy currentDir segs es).
      isDirectory (snd (snd q)) \<and> readableTree (snd (snd q))"
    using sub "2.prems" \<open>readableTree dir\<close> d by (auto simp: startedBy_def)
  then obtain result where "runReads formatDate (tl sched) (others @ startedBy currentDir segs es)
      (acc @ pushedBy formatDate currentDir segs es) = Inr result"
    using "2.IH" [OF k_def currentDir_def segs_def dir_def others_def es] by blast
  then show ?case
    using es unfolding step by simp
qed

lemma findIndex_first:
  "\<exists>x \<in> set xs. P x
   \<Longrightarrow> \<exists>i < length xs. findIndex P xs = int i \<and> P (xs ! i) \<and> (\<forall>j < i. \<not> P (xs ! j))"
proof (induction xs)
  case Nil
  then show ?case by simp
next
  case (Cons x xs)
  show ?case
  proof (cases "P x")
    case True
    then show ?thesis by (intro exI [of _ 0]) simp
  next
    case False
    then have "\<exists>x \<in> set xs. P x" using Cons.prems by auto
    then obtain i where i: "i < length xs" "findIndex P xs = int i" "P (xs ! i)"
      "\<forall>j < i. \<not> P (xs ! j)"
      using Cons.IH by blast
    have "\<forall>j < Suc i. \<not> P ((x # xs) ! j)"
      using False i(4) by (auto simp: less_Suc_eq_0_disj)
    then show ?thesis
      using False i by (intro exI [of _ "Suc i"]) (simp add: Let_def)
  qed
qed

lemma fileItem_of_root:
  "FileItem m t \<in> set (List.map_filter (galleryItemOf formatDate rootPath) entries)
   \<Longrightarrow> \<exists>e \<in> set entries. isFile e \<and> isMediaName (entryName e)
         \<and> m = processMediaFileForModal formatDate (Some e)
                 (pathJoin [rootPath, entryName e]) (entryName e)
         \<and> t = ''/'' @ entryName e"
  by (auto simp: List.map_filter_def galleryItemOf_def Let_def isMediaName_def
      split: if_splits)

lemma modalEntry_in_depthFirstAll:
  "e \<in> set es \<Longrightarrow> isFile e \<Longrightarrow> isMediaName (entryName e)
   \<Longrightarrow> modalEntry formatDate currentDir segs e \<in> set (depthFirstAll formatDate currentDir segs es)"
proof (induction es)
  case Nil
  then show ?case by simp
next
  case (Cons x xs)
  then show ?case by (cases e) auto
qed

lemma pathJoin_single: "validName n \<Longrightarrow> pathJoin [n] = n"
  using pathJoin_valid [of "[n]"] by simp

lemma set_sortItems: "set (sortItems lc xs) = set xs"
  using mset_sortItems [of lc xs] by (metis set_mset_mset)

lemma readdirAt_Dir:
  "readdirAt fsys p = Inr es \<Longrightarrow> \<exists>n. statPath fsys p = Inr (DirN n es)"
proof -
  assume a: "readdirAt fsys p = Inr es"
  then obtain d where d: "statPath fsys p = Inr d" "readdir d = Inr es"
    by (auto simp: readdirAt_def split: sum.splits)
  then show ?thesis by (cases d) auto
qed

text \<open>
  C3, as the code has it. When the media root and every directory below it can be
  listed, the top-level route renders a page, whatever the order in which the reads
  complete, and the list of the page holds every media file of the tree, the files of
  nested folders too, each as often as the depth-first enumeration does: the list is a
  rearrangement of that enumeration. It starts with the files of the root itself (those
  that are not JPEGs, then the JPEGs), so it is in general not the depth-first
  enumeration. The tiles are those of the sorted items, and every file item of the root
  has a tile whose index is the first position of the list with the relative path of
  the file.
\<close>

theorem flattened_list_and_navigation_index:
  assumes root: "readdirAt fsys rootPath = Inr entries"
    and readable: "\<forall>e \<in> set entries. readableTree e"
    and names: "\<forall>e \<in> set entries. validName (entryName e)"
  shows "\<exists>p. mainRoute formatDate localeCompare sched fsys rootPath = Page p
     \<and> mset (mediaFilesForModal p) = mset (depthFirstAll formatDate rootPath [] entries)
     \<and> (\<exists>rest. mediaFilesForModal p = pushedBy formatDate rootPath [] entries @ rest)
     \<and> tiles p = map (mainTile (mediaFilesForModal p))
         (sortItems localeCompare (List.map_filter (galleryItemOf formatDate rootPath) entries))
     \<and> (\<forall>m t. FileItem m t \<in> set (List.map_filter (galleryItemOf formatDate rootPath) entries)
          \<longrightarrow> (\<exists>i < length (mediaFilesForModal p).
                 FileTile (int i) (ext m \<in> set videoExtensions) t (caption m) \<in> set (tiles p)
               \<and> relFile (mediaFilesForModal p ! i) = relFile m
               \<and> (\<forall>j < i. relFile (mediaFilesForModal p ! j) \<noteq> relFile m)))"
proof -
  define items where "items = List.map_filter (galleryItemOf formatDate rootPath) entries"
  obtain n where st: "statPath fsys rootPath = Inr (DirN n entries)"
    using readdirAt_Dir [OF root] by blast
  have "\<forall>p \<in> set [(rootPath, [], DirN n entries)].
      isDirectory (snd (snd p)) \<and> readableTree (snd (snd p))"
    using readable by simp
  then obtain result where
    run: "runReads formatDate sched [(rootPath, [], DirN n entries)] [] = Inr result"
    using runReads_total by blast
  have ms: "mset result = mset (depthFirstAll formatDate rootPath [] entries)"
    using runReads_mset [OF run] by (simp add: pendingMedia_def)
  define p where "p = \<lparr>title = projectTitle,
      tiles = map (mainTile result) (sortItems localeCompare items),
      mediaFilesForModal = result, viewType = ''main''\<rparr>"
  have page: "mainRoute formatDate localeCompare sched fsys rootPath = Page p"
    using root st run by (simp add: mainRoute_def collectAllMediaFiles_def Let_def p_def items_def)
  have idx: "\<exists>i < length result.
        FileTile (int i) (ext m \<in> set videoExtensions) t (caption m) \<in> set (tiles p)
      \<and> relFile (result ! i) = relFile m
      \<and> (\<forall>j < i. relFile (result ! j) \<noteq> relFile m)"
    if mt: "FileItem m t \<in> set items" for m t
  proof -
    obtain e where e: "e \<in> set entries" "isFile e" "isMediaName (entryName e)"
      "m = processMediaFileForModal formatDate (Some e)
             (pathJoin [rootPath, entryName e]) (entryName e)"
      using fileItem_of_root [OF mt [unfolded items_def]] by blast
    have "validName (entryName e)" using names e(1) by blast
    then have "modalEntry formatDate rootPath [] e = m"
      using e(4) by (simp add: modalEntry_def pathJoin_single)
    then have "m \<in> set (depthFirstAll formatDate rootPath [] entries)"
      using modalEntry_in_depthFirstAll [OF e(1,2,3), of formatDate rootPath "[]"] by simp
    then have "m \<in> set result"
      using ms by (metis set_mset_mset)
    then have "\<exists>x \<in> set result. relFile x = relFile m" by blast
    then obtain i where i: "i < length result"
      "findIndex (\<lambda>f. relFile f = relFile m) result = int i"
      "relFile (result ! i) = relFile m" "\<forall>j < i. relFile (result ! j) \<noteq> relFile m"
      using findIndex_first [of result "\<lambda>f. relFile f = relFile m"] by blast
    have "mainTile result (FileItem m t) \<in> mainTile result ` set items"
      using mt by (rule imageI)
    then have "mainTile result (FileItem m t) \<in> set (tiles p)"
      by (simp only: p_def page.simps set_map set_sortItems)
    then have "FileTile (int i) (ext m \<in> set videoExtensions) t (caption m) \<in> set (tiles p)"
      using i(2) by simp
    then show ?thesis using i by blast
  qed
  show ?thesis
  proof (intro exI [of _ p] conjI)
    show "mainRoute formatDate localeCompare sched fsys rootPath = Page p" by (rule page)
    show "mset (mediaFilesForModal p) = mset (depthFirstAll formatDate rootPath [] entries)"
      using ms by (simp add: p_def)
    show "\<exists>rest. mediaFilesForModal p = pushedBy formatDate rootPath [] entries @ rest"
      using runReads_root_first [OF run] by (simp add: p_def)
    show "tiles p = map (mainTile (mediaFilesForModal p))
         (sortItems localeCompare (List.map_filter (galleryItemOf formatDate rootPath) entries))"
      by (simp add: p_def items_def)
    show "\<forall>m t. FileItem m t \<in> set (List.map_filter (galleryItemOf formatDate rootPath) entries)
          \<longrightarrow> (\<exists>i < length (mediaFilesForModal p).
                 FileTile (int i) (ext m \<in> set videoExtensions) t (caption m) \<in> set (tiles p)
               \<and> relFile (mediaFilesForModal p ! i) = relFile m
               \<and> (\<forall>j < i. relFile (mediaFilesForModal p ! j) \<noteq> relFile m))"
      using idx by (simp add: p_def items_def)
  qed
qed

theorem flattened_list_and_navigation_index_witness:
  "\<exists>p. mainRoute sampleFormatDate codeUnitCompare [] sampleFsys ''/srv/photos'' = Page p
     \<and> map relFile (mediaFilesForModal p)
       = [''b.png'', ''beach_sunset.mp4'', ''A.JPG'', ''sub/x.png'', ''sub/Cover-shot.JPG'',
          ''sub/deep/y.gif'']
     \<and> mset (mediaFilesForModal p)
       = mset (depthFirstAll sampleFormatDate ''/srv/photos'' [] samplePhotos)"
proof -
  have root: "readdirAt sampleFsys ''/srv/photos'' = Inr samplePhotos"
    by code_simp
  have readable: "\<forall>e \<in> set samplePhotos. readableTree e"
    by code_simp
  have names: "\<forall>e \<in> set samplePhotos. validName (entryName e)"
    by code_simp
  obtain p where p: "mainRoute sampleFormatDate codeUnitCompare [] sampleFsys ''/srv/photos'' = Page p"
    "mset (mediaFilesForModal p)
       = mset (depthFirstAll sampleFormatDate ''/srv/photos'' [] samplePhotos)"
    using flattened_list_and_navigation_index [OF root readable names,
        of sampleFormatDate codeUnitCompare "[]"]
    by blast
  have "(case mainRoute sampleFormatDate codeUnitCompare [] sampleFsys ''/srv/photos'' of
           Page q \<Rightarrow> map relFile (mediaFilesForModal q) | Status500 msg \<Rightarrow> [] | CallNext \<Rightarrow> [])
      = [''b.png'', ''beach_sunset.mp4'', ''A.JPG'', ''sub/x.png'', ''sub/Cover-shot.JPG'',
         ''sub/deep/y.gif'']"
    by code_simp
  then have names_of_p: "map relFile (mediaFilesForModal p)
      = [''b.png'', ''beach_sunset.mp4'', ''A.JPG'', ''sub/x.png'', ''sub/Cover-shot.JPG'',
         ''sub/deep/y.gif'']"
    by (simp add: p(1))
  show ?thesis
    by (rule exI [of _ p]) (simp only: p names_of_p simp_thms)
qed

text \<open>
  C3 as stated fails where a folder is listed before a loose file: depth first, the
  file \<open>aaa/x.png\<close> of the folder comes before \<open>b.png\<close>, but the list of the page has
  \<open>b.png\<close> first, since the folder is still being read when the file is pushed.
\<close>

theorem flattened_order_counterexample:
  "readdirAt nestedFirstFsys ''/srv/photos''
     = Inr [DirN ''aaa'' [FileN ''x.png'' None], FileN ''b.png'' None]
   \<and> depthFirstAll sampleFormatDate ''/srv/photos'' []
        [DirN ''aaa'' [FileN ''x.png'' None], FileN ''b.png'' None]
     = [\<lparr>relFile = ''aaa/x.png'', caption = ''x'', ext = ''.png''\<rparr>,
        \<lparr>relFile = ''b.png'', caption = ''b'', ext = ''.png''\<rparr>]
   \<and> collectAllMediaFiles sampleFormatDate [] nestedFirstFsys ''/srv/photos''
     = Inr [\<lparr>relFile = ''b.png'', caption = ''b'', ext = ''.png''\<rparr>,
            \<lparr>relFile = ''aaa/x.png'', caption = ''x'', ext = ''.png''\<rparr>]
   \<and> mainRoute sampleFormatDate codeUnitCompare [] nestedFirstFsys ''/srv/photos''
     = Page \<lparr>title = ''VCC Gallery'',
             tiles = [FolderTile ''/aaa'' ''/aaa/x.png'' ''aaa'', FileTile 0 False ''/b.png'' ''b''],
             mediaFilesForModal =
               [\<lparr>relFile = ''b.png'', caption = ''b'', ext = ''.png''\<rparr>,
                \<lparr>relFile = ''aaa/x.png'', caption = ''x'', ext = ''.png''\<rparr>],
             viewType = ''main''\<rparr>"
  by code_simp

subsection \<open>The page of a folder\<close>

lemma pathJoin_pair: "validName a \<Longrightarrow> validName b \<Longrightarrow> pathJoin [a, b] = a @ ''/'' @ b"
  using pathJoin_valid [of "[a, b]"] by simp

lemma entryAt_Dir [simp]: "entryAt (DirN n es) f = childNamed es f"
  by (simp add: entryAt_def)

lemma media_of_Dir:
  "getMediaFilesFromDirectory (Some (DirN n es)) = filter isMediaName (map entryName es)"
  by (simp add: getMediaFilesFromDirectory_def)

text \<open>
  C8. When the name of the request is a plain name and resolves to a directory that can
  be listed, the route renders a page whose list holds one entry for every entry of that
  directory with a media extension, in the order of the listing and under the path
  \<open>folder/name\<close>, and nothing from deeper directories; the page has one tile for each
  entry of the list, in the same order, and the index of a tile is its position in this
  list. The route does not compute the flattened list of the top-level page at all.
\<close>

theorem folder_page_scoped_to_folder:
  assumes fname: "validName folderName"
    and stat: "statPath fsys (pathJoin [rootPath, folderName]) = Inr (DirN n es)"
    and names: "\<forall>e \<in> set es. validName (entryName e)"
  shows "\<exists>p. folderRoute formatDate fsys rootPath folderName = Page p
     \<and> mediaFilesForModal p =
         map (\<lambda>f. processMediaFileForModal formatDate (childNamed es f)
                    (pathJoin [pathJoin [rootPath, folderName], f]) (folderName @ ''/'' @ f))
           (filter isMediaName (map entryName es))
     \<and> length (tiles p) = length (mediaFilesForModal p)
     \<and> (\<forall>i < length (mediaFilesForModal p).
           tiles p ! i =
             FileTile (int i) (ext (mediaFilesForModal p ! i) \<in> set videoExtensions)
               (''/'' @ relFile (mediaFilesForModal p ! i)) (caption (mediaFilesForModal p ! i)))"
proof -
  define files where "files = filter isMediaName (map entryName es)"
  define entries where "entries =
    map (\<lambda>f. processMediaFileForModal formatDate (childNamed es f)
               (pathJoin [pathJoin [rootPath, folderName], f]) (folderName @ ''/'' @ f)) files"
  define p where "p = \<lparr>title = projectTitle @ '' - '' @ folderName,
      tiles = map folderTile (enumerate 0 entries),
      mediaFilesForModal = entries, viewType = ''folder''\<rparr>"
  have "\<forall>f \<in> set files. validName f"
    using names by (auto simp: files_def)
  then have same: "map (\<lambda>f. processMediaFileForModal formatDate (childNamed es f)
               (pathJoin [pathJoin [rootPath, folderName], f]) (pathJoin [folderName, f])) files
      = entries"
    unfolding entries_def using fname by (intro map_cong refl) (simp add: pathJoin_pair)
  have page: "folderRoute formatDate fsys rootPath folderName = Page p"
    using stat same by (simp add: folderRoute_def Let_def media_of_Dir files_def [symmetric] p_def)
  have tl: "tiles p ! i =
      FileTile (int i) (ext (entries ! i) \<in> set videoExtensions)
        (''/'' @ relFile (entries ! i)) (caption (entries ! i))"
    if "i < length entries" for i
    using that by (simp add: p_def nth_enumerate_eq folderTile_def)
  show ?thesis
  proof (intro exI [of _ p] conjI)
    show "folderRoute formatDate fsys rootPath folderName = Page p" by (rule page)
    show "mediaFilesForModal p =
         map (\<lambda>f. processMediaFileForModal formatDate (childNamed es f)
                    (pathJoin [pathJoin [rootPath, folderName], f]) (folderName @ ''/'' @ f))
           (filter isMediaName (map entryName es))"
      by (simp add: p_def entries_def files_def)
    show "length (tiles p) = length (mediaFilesForModal p)"
      by (simp add: p_def)
    show "\<forall>i < length (mediaFilesForModal p).
           tiles p ! i =
             FileTile (int i) (ext (mediaFilesForModal p ! i) \<in> set videoExtensions)
               (''/'' @ relFile (mediaFilesForModal p ! i)) (caption (mediaFilesForModal p ! i))"
      using tl by (simp add: p_def)
  qed
qed

theorem folder_page_scoped_to_folder_witness:
  "\<exists>p. folderRoute sampleFormatDate sampleFsys ''/srv/photos'' ''sub'' = Page p
     \<and> map relFile (mediaFilesForModal p) = [''sub/x.png'', ''sub/Cover-shot.JPG'']
     \<and> tiles p = [FileTile 0 False ''/sub/x.png'' ''x'',
                   FileTile 1 False ''/sub/Cover-shot.JPG'' ''Cover shot'']"
proof -
  have v: "validName ''sub''"
    by code_simp
  have st: "statPath sampleFsys (pathJoin [''/srv/photos'', ''sub''])
      = Inr (DirN ''sub'' [FileN ''x.png'' None, FileN ''Cover-shot.JPG'' (Some sampleTags),
          DirN ''deep'' [FileN ''y.gif'' None]])"
    by code_simp
  have names: "\<forall>e \<in> set [FileN ''x.png'' None, FileN ''Cover-shot.JPG'' (Some sampleTags),
      DirN ''deep'' [FileN ''y.gif'' None]]. validName (entryName e)"
    by code_simp
  obtain p where p: "folderRoute sampleFormatDate sampleFsys ''/srv/photos'' ''sub'' = Page p"
    using folder_page_scoped_to_folder [OF v st names, of sampleFormatDate] by blast
  have "(case folderRoute sampleFormatDate sampleFsys ''/srv/photos'' ''sub'' of
           Page q \<Rightarrow> (map relFile (mediaFilesForModal q), tiles q)
         | Status500 msg \<Rightarrow> ([], []) | CallNext \<Rightarrow> ([], []))
      = ([''sub/x.png'', ''sub/Cover-shot.JPG''],
         [FileTile 0 False ''/sub/x.png'' ''x'',
          FileTile 1 False ''/sub/Cover-shot.JPG'' ''Cover shot''])"
    by code_simp
  then have q: "map relFile (mediaFilesForModal p) = [''sub/x.png'', ''sub/Cover-shot.JPG'']"
    "tiles p = [FileTile 0 False ''/sub/x.png'' ''x'',
                FileTile 1 False ''/sub/Cover-shot.JPG'' ''Cover shot'']"
    by (simp_all add: p)
  show ?thesis
    by (rule exI [of _ p]) (simp only: p q simp_thms)
qed

subsection \<open>Which directories get a page\<close>

lemma splitSlash_slashfree: "\<forall>s \<in> set (splitSlash p). CHR ''/'' \<notin> set s"
proof (induction p)
  case Nil
  then show ?case by simp
next
  case (Cons c cs)
  then show ?case
    by (cases "splitSlash cs") (auto simp: isSlash_def)
qed

lemma normalizeSegs_False_valid:
  "\<forall>a \<in> set acc. validName a \<Longrightarrow> \<forall>s \<in> set ss. CHR ''/'' \<notin> set s
   \<Longrightarrow> \<forall>s \<in> set (normalizeSegs False acc ss). validName s"
proof (induction ss arbitrary: acc)
  case Nil
  then show ?case by simp
next
  case (Cons s ss)
  note IH = Cons.IH and prems = Cons.prems
  have ss: "\<forall>s \<in> set ss. CHR ''/'' \<notin> set s"
    using prems(2) by simp
  consider (skip) "s = [] \<or> s = ''.''" | (up) "s = ''..''"
    | (push) "s \<noteq> []" "s \<noteq> ''.''" "s \<noteq> ''..''"
    by blast
  then show ?case
  proof cases
    case skip
    then have "normalizeSegs False acc (s # ss) = normalizeSegs False acc ss"
      by auto
    then show ?thesis
      using IH [OF prems(1) ss] by simp
  next
    case up
    show ?thesis
    proof (cases acc)
      case Nil
      then have "normalizeSegs False acc (s # ss) = normalizeSegs False [] ss"
        using up by simp
      then show ?thesis
        using IH [of "[]", OF _ ss] by simp
    next
      case (Cons a as)
      have as: "\<forall>a \<in> set as. validName a"
        using prems(1) Cons by simp
      have "normalizeSegs False acc (s # ss) = normalizeSegs False acc ss
          \<or> normalizeSegs False acc (s # ss) = normalizeSegs False as ss"
        unfolding up Cons by simp
      then show ?thesis
        using IH [OF prems(1) ss] IH [OF as ss] by metis
    qed
  next
    case push
    have "CHR ''/'' \<notin> set s"
      using prems(2) by simp
    then have "validName s"
      using push by (simp add: validName_def)
    then have v: "\<forall>a \<in> set (s # acc). validName a"
      using prems(1) by simp
    have "normalizeSegs False acc (s # ss) = normalizeSegs False (s # acc) ss"
      using push by simp
    then show ?thesis
      using IH [OF v ss] by simp
  qed
qed

lemma walk_append:
  "walk r (xs @ ys) = (case walk r xs of Inl e \<Rightarrow> Inl e | Inr d \<Rightarrow> walk d ys)"
  by (induction r xs rule: walk.induct) (simp_all split: option.splits)

lemma walk_single:
  "walk r [s] = Inr d \<Longrightarrow> entryAt r s = Some d"
  by (cases r) (auto simp: entryAt_def split: option.splits)

lemma segments_of_child:
  assumes abs: "rootPath \<noteq> []" "isSlash (hd rootPath)"
    and name: "validName name"
  shows "normalizeSegs False [] (splitSlash (pathJoin [rootPath, name]))
     = normalizeSegs False [] (splitSlash rootPath) @ [name]"
proof -
  define N where "N = normalizeSegs False [] (splitSlash rootPath)"
  define J where "J = rootPath @ ''/'' @ name"
  have n: "name \<noteq> []" "CHR ''/'' \<notin> set name"
    using name by (auto simp: validName_def)
  have NV: "\<forall>s \<in> set N. validName s"
    unfolding N_def using splitSlash_slashfree by (intro normalizeSegs_False_valid) auto
  then have NN: "\<forall>s \<in> set (N @ [name]). validName s"
    using name by simp
  have J: "J \<noteq> []" "isSlash (hd J)"
    using abs by (auto simp: J_def)
  have "last name \<noteq> CHR ''/''"
    using n by (metis last_in_set)
  then have lastJ: "\<not> isSlash (last J)"
    using n by (simp add: J_def isSlash_def)
  have "splitSlash J = splitSlash rootPath @ [name]"
    using splitSlash_append [OF n(2), of rootPath] by (simp add: J_def)
  then have q: "normalizeSegs False [] (splitSlash J) = N @ [name]"
    by (simp add: normalizeSegs_snoc [OF name] N_def)
  have jq: "joinWith ''/'' (N @ [name]) \<noteq> []"
    using n by (simp add: joinWith_snoc)
  have norm: "normalize J = ''/'' @ joinWith ''/'' (N @ [name])"
    using J lastJ q jq by (simp add: normalize_def Let_def)
  have pj: "pathJoin [rootPath, name] = normalize J"
    using abs(1) n(1) by (simp add: pathJoin_def Let_def J_def)
  have "splitSlash (''/'' @ joinWith ''/'' (N @ [name])) = [] # splitSlash (joinWith ''/'' (N @ [name]))"
    by (simp add: isSlash_def)
  also have "splitSlash (joinWith ''/'' (N @ [name])) = N @ [name]"
    using NN by (intro splitSlash_join) (auto simp: validName_def)
  finally have "splitSlash (pathJoin [rootPath, name]) = [] # (N @ [name])"
    by (simp add: pj norm)
  then have "normalizeSegs False [] (splitSlash (pathJoin [rootPath, name]))
      = normalizeSegs False [] (N @ [name])"
    by simp
  also have "\<dots> = N @ [name]"
    using normalizeSegs_valid [OF NN, of False "[]"] by simp
  finally show ?thesis by (simp add: N_def)
qed

lemma stat_child:
  assumes abs: "rootPath \<noteq> []" "isSlash (hd rootPath)"
    and name: "validName name"
    and stat: "statPath fsys (pathJoin [rootPath, name]) = Inr d"
  shows "\<exists>r. statPath fsys rootPath = Inr r \<and> entryAt r name = Some d"
proof -
  have "walk fsys (normalizeSegs False [] (splitSlash rootPath) @ [name]) = Inr d"
    using stat by (simp add: statPath_def segments_of_child [OF abs name])
  then obtain r where r: "walk fsys (normalizeSegs False [] (splitSlash rootPath)) = Inr r"
    "walk r [name] = Inr d"
    by (auto simp: walk_append split: sum.splits)
  then show ?thesis
    using walk_single [OF r(2)] by (auto simp: statPath_def)
qed

lemma folderItem_of_root:
  "FolderItem n c t l \<in> set (List.map_filter (galleryItemOf formatDate rootPath) entries)
   \<Longrightarrow> \<exists>e \<in> set entries. isDirectory e \<and> n = entryName e \<and> l = ''/'' @ entryName e"
  by (auto simp: List.map_filter_def galleryItemOf_def Let_def split: if_splits)

lemma folderRoute_Page:
  "folderRoute formatDate fsys rootPath folderName = Page p
   \<Longrightarrow> \<exists>d. statPath fsys (pathJoin [rootPath, folderName]) = Inr d \<and> isDirectory d
         \<and> map relFile (mediaFilesForModal p)
           = map (\<lambda>f. pathJoin [folderName, f]) (getMediaFilesFromDirectory (Some d))"
  by (auto simp: folderRoute_def Let_def comp_def split: sum.splits if_splits)

text \<open>
  C10, as the code has it. The folder items of the top-level page, and with them the
  links to folder pages, are made for the directories among the entries of the media
  root and for nothing else. The folder route, for a media root given by an absolute
  path and a name that is a plain name (not empty, no slash, not \<open>.\<close> or \<open>..\<close>),
  renders a page only for a directory that is an entry of the media root, with the
  media entries of that directory.
\<close>

theorem folder_pages_for_plain_names_are_immediate:
  assumes abs: "rootPath \<noteq> []" "isSlash (hd rootPath)"
  shows "(\<forall>n c t l. FolderItem n c t l
            \<in> set (List.map_filter (galleryItemOf formatDate rootPath) entries)
          \<longrightarrow> (\<exists>e \<in> set entries. isDirectory e \<and> n = entryName e \<and> l = ''/'' @ entryName e))
     \<and> (\<forall>p. validName folderName
            \<and> folderRoute formatDate fsys rootPath folderName = Page p
          \<longrightarrow> (\<exists>r d. statPath fsys rootPath = Inr r \<and> entryAt r folderName = Some d
                 \<and> isDirectory d
                 \<and> map relFile (mediaFilesForModal p)
                   = map (\<lambda>f. pathJoin [folderName, f]) (getMediaFilesFromDirectory (Some d))))"
proof (intro conjI allI impI)
  fix n c t l
  assume "FolderItem n c t l \<in> set (List.map_filter (galleryItemOf formatDate rootPath) entries)"
  then show "\<exists>e \<in> set entries. isDirectory e \<and> n = entryName e \<and> l = ''/'' @ entryName e"
    by (rule folderItem_of_root)
next
  fix p
  assume a: "validName folderName \<and> folderRoute formatDate fsys rootPath folderName = Page p"
  then obtain d where d: "statPath fsys (pathJoin [rootPath, folderName]) = Inr d"
    "isDirectory d"
    "map relFile (mediaFilesForModal p)
       = map (\<lambda>f. pathJoin [folderName, f]) (getMediaFilesFromDirectory (Some d))"
    using folderRoute_Page by blast
  obtain r where "statPath fsys rootPath = Inr r" "entryAt r folderName = Some d"
    using stat_child [OF abs _ d(1)] a by blast
  then show "\<exists>r d. statPath fsys rootPath = Inr r \<and> entryAt r folderName = Some d
      \<and> isDirectory d
      \<and> map relFile (mediaFilesForModal p)
        = map (\<lambda>f. pathJoin [folderName, f]) (getMediaFilesFromDirectory (Some d))"
    using d by blast
qed

theorem folder_pages_for_plain_names_are_immediate_witness:
  "(\<exists>r d. statPath sampleFsys ''/srv/photos'' = Inr r \<and> entryAt r ''sub'' = Some d
      \<and> isDirectory d)
   \<and> (\<exists>e \<in> set samplePhotos. isDirectory e \<and> ''sub'' = entryName e
        \<and> ''/sub'' = ''/'' @ entryName e)"
proof -
  have abs: "''/srv/photos'' \<noteq> []" "isSlash (hd ''/srv/photos'')"
    by code_simp+
  have v: "validName ''sub''"
    by code_simp
  have page: "folderRoute sampleFormatDate sampleFsys ''/srv/photos'' ''sub''
      = Page \<lparr>title = ''VCC Gallery - sub'',
          tiles = [FileTile 0 False ''/sub/x.png'' ''x'',
                   FileTile 1 False ''/sub/Cover-shot.JPG'' ''Cover shot''],
          mediaFilesForModal =
            [\<lparr>relFile = ''sub/x.png'', caption = ''x'', ext = ''.png''\<rparr>,
             \<lparr>relFile = ''sub/Cover-shot.JPG'', caption = ''Cover shot'', ext = ''.jpg''\<rparr>],
          viewType = ''folder''\<rparr>"
    by code_simp
  have item: "FolderItem ''sub'' ''sub'' ''/sub/Cover-shot.JPG'' ''/sub''
      \<in> set (List.map_filter (galleryItemOf sampleFormatDate ''/srv/photos'') samplePhotos)"
    by code_simp
  note t = folder_pages_for_plain_names_are_immediate [OF abs,
      of sampleFormatDate samplePhotos "''sub''" sampleFsys]
  have 1: "\<exists>r d. statPath sampleFsys ''/srv/photos'' = Inr r \<and> entryAt r ''sub'' = Some d
      \<and> isDirectory d"
    using t v page by blast
  have 2: "\<exists>e \<in> set samplePhotos. isDirectory e \<and> ''sub'' = entryName e
      \<and> ''/sub'' = ''/'' @ entryName e"
    using t item by blast
  show ?thesis
    using 1 2 by (rule conjI)
qed

text \<open>
  C10 as stated fails. The route pattern matches one segment of the request path as it
  is sent, and Express hands the handler the segment after \<open>decodeURIComponent\<close>: the
  request \<open>/sub%2Fdeep\<close> is one segment and gives the name \<open>sub/deep\<close>. The handler
  joins the name to the media root without looking at it, so the directory \<open>deep\<close>,
  which is no entry of the media root but lies two levels below it, gets a gallery page.
\<close>

theorem encoded_separator_counterexample:
  "readdirAt sampleFsys ''/srv/photos'' = Inr samplePhotos
   \<and> childNamed samplePhotos ''deep'' = None
   \<and> statPath sampleFsys ''/srv/photos/sub/deep'' = Inr (DirN ''deep'' [FileN ''y.gif'' None])
   \<and> folderRoute sampleFormatDate sampleFsys ''/srv/photos'' ''sub/deep''
     = Page \<lparr>title = ''VCC Gallery - sub/deep'',
             tiles = [FileTile 0 False ''/sub/deep/y.gif'' ''y''],
             mediaFilesForModal = [\<lparr>relFile = ''sub/deep/y.gif'', caption = ''y'', ext = ''.gif''\<rparr>],
             viewType = ''folder''\<rparr>"
  by code_simp

subsection \<open>The extension filter in every list\<close>

lemma depthFirst_members:
  "(m \<in> set (depthFirst formatDate currentDir segs e)
      \<longrightarrow> (\<exists>cd sg n x. m = modalEntry formatDate cd sg (FileN n x) \<and> isMediaName n))"
  "(m \<in> set (depthFirstAll formatDate currentDir segs es)
      \<longrightarrow> (\<exists>cd sg n x. m = modalEntry formatDate cd sg (FileN n x) \<and> isMediaName n))"
  by (induction formatDate currentDir segs e and formatDate currentDir segs es
      rule: depthFirst_depthFirstAll.induct) auto

lemma collect_members:
  assumes "collectAllMediaFiles formatDate sched fsys rootPath = Inr result" "m \<in> set result"
  shows "\<exists>cd sg n x. m = modalEntry formatDate cd sg (FileN n x) \<and> isMediaName n"
proof -
  obtain d where d: "statPath fsys rootPath = Inr d"
    "runReads formatDate sched [(rootPath, [], d)] [] = Inr result"
    using assms(1) by (auto simp: collectAllMediaFiles_def split: sum.splits)
  have "mset result = mset (pendingMedia formatDate [(rootPath, [], d)])"
    using runReads_mset [OF d(2)] by simp
  then have "m \<in> set (pendingMedia formatDate [(rootPath, [], d)])"
    using assms(2) by (metis set_mset_mset)
  then obtain es where "m \<in> set (depthFirstAll formatDate rootPath [] es)"
    by (auto simp: pendingMedia_def split: sum.splits)
  then show ?thesis
    using depthFirst_members(2) by blast
qed

text \<open>
  C9. The scanner keeps, in the order of the listing, exactly the names whose extension
  is one of the eight supported ones once it is put in lower case, so that \<open>A.JPG\<close> is
  kept and \<open>notes-from-trip.txt\<close> is dropped. The file items of the top-level page
  are exactly the regular files of the root that pass the same test, and every entry of
  the flattened list is the entry of a regular file that passes it: a file with another
  extension is in no list. (The list of a folder page is made from the result of the
  scanner.)
\<close>

theorem scanner_keeps_supported_extensions:
  "set (getMediaFilesFromDirectory (Some (DirN n es)))
     = {f \<in> entryName ` set es. toLowerCase (extname f) \<in>
          {''.jpg'', ''.jpeg'', ''.png'', ''.gif'', ''.mp4'', ''.mov'', ''.webm'', ''.webp''}}
   \<and> getMediaFilesFromDirectory (Some (DirN n es)) = filter isMediaName (map entryName es)
   \<and> fileItemPaths (List.map_filter (galleryItemOf formatDate rootPath) es)
       = filter isMediaName (map entryName (filter isFile es))
   \<and> (\<forall>result. collectAllMediaFiles formatDate sched fsys rootPath = Inr result
        \<longrightarrow> (\<forall>m \<in> set result.
               \<exists>cd sg f x. m = modalEntry formatDate cd sg (FileN f x) \<and> isMediaName f))
   \<and> isMediaName ''A.JPG'' \<and> \<not> isMediaName ''notes-from-trip.txt''"
proof -
  have ex1: "isMediaName ''A.JPG''" and ex2: "\<not> isMediaName ''notes-from-trip.txt''"
    by code_simp+
  have scan1: "set (getMediaFilesFromDirectory (Some (DirN n es)))
     = {f \<in> entryName ` set es. toLowerCase (extname f) \<in>
          {''.jpg'', ''.jpeg'', ''.png'', ''.gif'', ''.mp4'', ''.mov'', ''.webm'', ''.webp''}}"
    by (auto simp: getMediaFilesFromDirectory_def isMediaName_def supportedExtensions_def)
  have scan2: "getMediaFilesFromDirectory (Some (DirN n es))
      = filter isMediaName (map entryName es)"
    by (simp add: getMediaFilesFromDirectory_def)
  have items: "fileItemPaths (List.map_filter (galleryItemOf formatDate rootPath) es)
       = filter isMediaName (map entryName (filter isFile es))"
    by (rule fileItemPaths_items)
  have flat: "\<forall>result. collectAllMediaFiles formatDate sched fsys rootPath = Inr result
        \<longrightarrow> (\<forall>m \<in> set result.
               \<exists>cd sg f x. m = modalEntry formatDate cd sg (FileN f x) \<and> isMediaName f)"
    using collect_members by blast
  show ?thesis
    by (intro conjI scan1 scan2 items flat ex1 ex2)
qed

theorem scanner_keeps_supported_extensions_witness:
  "getMediaFilesFromDirectory (Some (DirN ''photos'' samplePhotos))
     = [''b.png'', ''A.JPG'', ''beach_sunset.mp4'']
   \<and> fileItemPaths (List.map_filter (galleryItemOf sampleFormatDate ''/srv/photos'') samplePhotos)
     = [''b.png'', ''A.JPG'', ''beach_sunset.mp4'']"
proof -
  have "filter isMediaName (map entryName samplePhotos) = [''b.png'', ''A.JPG'', ''beach_sunset.mp4'']"
    by code_simp
  moreover have "filter isMediaName (map entryName (filter isFile samplePhotos))
      = [''b.png'', ''A.JPG'', ''beach_sunset.mp4'']"
    by code_simp
  ultimately show ?thesis
    using scanner_keeps_supported_extensions [of "''photos''" samplePhotos sampleFormatDate
        "''/srv/photos''" "[]" sampleFsys]
    by simp
qed

subsection \<open>Empty captions\<close>

lemma folder_caption_by_name:
  assumes "galleryItemOf formatDate rootPath e = Some (FolderItem n c t l)"
    and "validName (entryName e)"
  shows "c = trim (replaceRuns (entryName e))"
proof -
  have nm: "spacedName (last (splitSlash (entryName e))) = trim (replaceRuns (entryName e))"
    using assms(2) by (simp add: validName_def splitSlash_noslash spacedName_replaceRuns)
  have dir: "isDirectory e"
    using assms(1) by (auto simp: galleryItemOf_def Let_def split: if_splits)
  show ?thesis
  proof (cases "findFolderCover e (entryName e)")
    case None
    then have "c = spacedName (last (splitSlash (entryName e)))"
      using assms(1) dir by (auto simp: galleryItemOf_def Let_def simp del: splitSlash.simps)
    then show ?thesis using nm by simp
  next
    case (Some cv)
    then have "c = coverCaption cv"
      using assms(1) dir by (auto simp: galleryItemOf_def Let_def simp del: splitSlash.simps)
    then show ?thesis
      using coverCaption_by_name [OF Some] nm by simp
  qed
qed

lemma trim_replaceRuns_empty_iff:
  "trim (replaceRuns s) = [] \<longleftrightarrow> (\<forall>c \<in> set s. isHyphenUnderscore c \<or> isWhiteSpace c)"
  using spacedName_empty_iff [of s] by (simp add: spacedName_replaceRuns)

text \<open>
  C7, as the code has it. Since \<open>getExifData\<close> never returns tags, every caption comes
  from a name or is \<open>Video\<close>. The caption of a file is not empty when the name of the
  file without its extension has a character other than hyphen, underscore and white
  space, and when the file is a video. The caption of a file that is no video is empty
  exactly when the name without extension consists of hyphens, underscores and white
  space only. So the file item of a root file whose name has such a character has a
  caption that is not empty; and the caption of a folder item is the name of the folder
  with its runs of hyphens and underscores replaced by a space, trimmed, which is empty
  exactly when the name of the folder consists of hyphens, underscores and white space
  only.
\<close>

theorem caption_empty_only_for_blank_stem:
  "((\<exists>c \<in> set (parseName relativePath). \<not> isHyphenUnderscore c \<and> \<not> isWhiteSpace c)
          \<or> toLowerCase (extname fullPath) \<in> set videoExtensions
        \<longrightarrow> caption (processMediaFileForModal formatDate at fullPath relativePath) \<noteq> [])
     \<and> (toLowerCase (extname fullPath) \<notin> set videoExtensions
        \<longrightarrow> (caption (processMediaFileForModal formatDate at fullPath relativePath) = []
             \<longleftrightarrow> (\<forall>c \<in> set (parseName relativePath). isHyphenUnderscore c \<or> isWhiteSpace c)))
     \<and> (\<forall>e m t. galleryItemOf formatDate rootPath e = Some (FileItem m t)
          \<and> (\<exists>c \<in> set (parseName (entryName e)). \<not> isHyphenUnderscore c \<and> \<not> isWhiteSpace c)
        \<longrightarrow> caption m \<noteq> [])
     \<and> (\<forall>e n c t l. galleryItemOf formatDate rootPath e = Some (FolderItem n c t l)
          \<and> validName (entryName e)
        \<longrightarrow> c = trim (replaceRuns (entryName e))
            \<and> (c = [] \<longleftrightarrow> (\<forall>ch \<in> set (entryName e). isHyphenUnderscore ch \<or> isWhiteSpace ch)))"
proof -
  have one: "caption (processMediaFileForModal formatDate x fp rp) \<noteq> []"
    if "(\<exists>c \<in> set (parseName rp). \<not> isHyphenUnderscore c \<and> \<not> isWhiteSpace c)
        \<or> toLowerCase (extname fp) \<in> set videoExtensions" for x fp rp
    using that by (auto simp: caption_by_name trim_replaceRuns_empty_iff)
  have two: "caption (processMediaFileForModal formatDate at fullPath relativePath) = []
      \<longleftrightarrow> (\<forall>c \<in> set (parseName relativePath). isHyphenUnderscore c \<or> isWhiteSpace c)"
    if "toLowerCase (extname fullPath) \<notin> set videoExtensions"
    using that by (simp add: caption_by_name trim_replaceRuns_empty_iff)
  have three: "caption m \<noteq> []"
    if "galleryItemOf formatDate rootPath e = Some (FileItem m t)
        \<and> (\<exists>c \<in> set (parseName (entryName e)). \<not> isHyphenUnderscore c \<and> \<not> isWhiteSpace c)"
    for e m t
  proof -
    have "m = processMediaFileForModal formatDate (Some e)
        (pathJoin [rootPath, entryName e]) (entryName e)"
      using that by (auto simp: galleryItemOf_def Let_def split: if_splits)
    then show ?thesis
      using one [of "entryName e"] that by blast
  qed
  have four: "c = trim (replaceRuns (entryName e))
      \<and> (c = [] \<longleftrightarrow> (\<forall>ch \<in> set (entryName e). isHyphenUnderscore ch \<or> isWhiteSpace ch))"
    if "galleryItemOf formatDate rootPath e = Some (FolderItem n c t l) \<and> validName (entryName e)"
    for e n c t l
  proof -
    have "c = trim (replaceRuns (entryName e))"
      using that folder_caption_by_name [of formatDate rootPath e n c t l] by simp
    then show ?thesis
      by (simp add: trim_replaceRuns_empty_iff)
  qed
  show ?thesis
  proof (intro conjI allI impI)
    assume "(\<exists>c \<in> set (parseName relativePath). \<not> isHyphenUnderscore c \<and> \<not> isWhiteSpace c)
        \<or> toLowerCase (extname fullPath) \<in> set videoExtensions"
    then show "caption (processMediaFileForModal formatDate at fullPath relativePath) \<noteq> []"
      by (rule one)
  next
    assume "toLowerCase (extname fullPath) \<notin> set videoExtensions"
    then show "caption (processMediaFileForModal formatDate at fullPath relativePath) = []
        \<longleftrightarrow> (\<forall>c \<in> set (parseName relativePath). isHyphenUnderscore c \<or> isWhiteSpace c)"
      by (rule two)
  next
    fix e m t
    assume "galleryItemOf formatDate rootPath e = Some (FileItem m t)
        \<and> (\<exists>c \<in> set (parseName (entryName e)). \<not> isHyphenUnderscore c \<and> \<not> isWhiteSpace c)"
    then show "caption m \<noteq> []"
      by (rule three)
  next
    fix e n c t l
    assume a: "galleryItemOf formatDate rootPath e = Some (FolderItem n c t l)
        \<and> validName (entryName e)"
    show "c = trim (replaceRuns (entryName e))"
      using four [OF a] by (rule conjunct1)
    show "c = [] \<longleftrightarrow> (\<forall>ch \<in> set (entryName e). isHyphenUnderscore ch \<or> isWhiteSpace ch)"
      using four [OF a] by (rule conjunct2)
  qed
qed

theorem caption_empty_only_for_blank_stem_witness:
  "caption (processMediaFileForModal sampleFormatDate None
      ''/srv/photos/my-trip__to_rome.png'' ''my-trip__to_rome.png'') \<noteq> []
   \<and> caption (processMediaFileForModal sampleFormatDate None
      ''/srv/photos/beach_sunset.mp4'' ''beach_sunset.mp4'') \<noteq> []
   \<and> galleryItemOf sampleFormatDate ''/srv/photos'' (FileN ''A.JPG'' None)
     = Some (FileItem \<lparr>relFile = ''A.JPG'', caption = ''A'', ext = ''.jpg''\<rparr> ''/A.JPG'')
   \<and> caption \<lparr>relFile = ''A.JPG'', caption = ''A'', ext = ''.jpg''\<rparr> \<noteq> []
   \<and> galleryItemOf sampleFormatDate ''/srv/photos'' coverFolder
     = Some (FolderItem ''my_trip'' ''my trip'' ''/my_trip/cover.png'' ''/my_trip'')
   \<and> validName (entryName coverFolder)
   \<and> ''my trip'' = trim (replaceRuns (entryName coverFolder))"
proof -
  have "CHR ''m'' \<in> set (parseName ''my-trip__to_rome.png'')
      \<and> \<not> isHyphenUnderscore (CHR ''m'') \<and> \<not> isWhiteSpace (CHR ''m'')"
    by code_simp
  then have 1: "\<exists>c \<in> set (parseName ''my-trip__to_rome.png'').
      \<not> isHyphenUnderscore c \<and> \<not> isWhiteSpace c"
    by blast
  have 2: "toLowerCase (extname ''/srv/photos/beach_sunset.mp4'') \<in> set videoExtensions"
    by code_simp
  have 3: "galleryItemOf sampleFormatDate ''/srv/photos'' (FileN ''A.JPG'' None)
      = Some (FileItem \<lparr>relFile = ''A.JPG'', caption = ''A'', ext = ''.jpg''\<rparr> ''/A.JPG'')"
    by code_simp
  have "CHR ''A'' \<in> set (parseName (entryName (FileN ''A.JPG'' None)))
      \<and> \<not> isHyphenUnderscore (CHR ''A'') \<and> \<not> isWhiteSpace (CHR ''A'')"
    by code_simp
  then have 4: "\<exists>c \<in> set (parseName (entryName (FileN ''A.JPG'' None))).
      \<not> isHyphenUnderscore c \<and> \<not> isWhiteSpace c"
    by blast
  have 5: "galleryItemOf sampleFormatDate ''/srv/photos'' coverFolder
      = Some (FolderItem ''my_trip'' ''my trip'' ''/my_trip/cover.png'' ''/my_trip'')"
    by code_simp
  have 6: "validName (entryName coverFolder)"
    by code_simp
  note inst = caption_empty_only_for_blank_stem [of "''my-trip__to_rome.png''"
      "''/srv/photos/my-trip__to_rome.png''" sampleFormatDate None "''/srv/photos''"]
  have a: "caption (processMediaFileForModal sampleFormatDate None
      ''/srv/photos/my-trip__to_rome.png'' ''my-trip__to_rome.png'') \<noteq> []"
    using inst 1 by blast
  have b: "caption (processMediaFileForModal sampleFormatDate None
      ''/srv/photos/beach_sunset.mp4'' ''beach_sunset.mp4'') \<noteq> []"
    using caption_empty_only_for_blank_stem [of "''beach_sunset.mp4''"
        "''/srv/photos/beach_sunset.mp4''" sampleFormatDate None "''/srv/photos''"] 2
    by blast
  have c: "caption \<lparr>relFile = ''A.JPG'', caption = ''A'', ext = ''.jpg''\<rparr> \<noteq> []"
    using inst 3 4 by blast
  have d: "''my trip'' = trim (replaceRuns (entryName coverFolder))"
    using inst 5 6 by blast
  show ?thesis
    by (intro conjI a b 3 c 5 6 d)
qed

text \<open>
  C7 as stated fails for the file \<open>_.png\<close>: the scanner accepts it, and its caption,
  derived from the name, is empty, in its file item too; so is the caption of the item
  of a folder named \<open>_\<close>.
\<close>

theorem blank_stem_counterexample:
  "isMediaName ''_.png''
   \<and> caption (processMediaFileForModal sampleFormatDate (Some (FileN ''_.png'' None))
        ''/srv/photos/_.png'' ''_.png'') = []
   \<and> galleryItemOf sampleFormatDate ''/srv/photos'' (FileN ''_.png'' None)
     = Some (FileItem \<lparr>relFile = ''_.png'', caption = [], ext = ''.png''\<rparr> ''/_.png'')
   \<and> galleryItemOf sampleFormatDate ''/srv/photos'' (DirN ''_'' [])
     = Some (FolderItem ''_'' [] ''/folder_icon.png'' ''/_'')"
  by code_simp

end
